(* ===== verification/Prelude.thy ===== *)
theory Prelude
  imports Main "HOL-Library.Word" "HOL-Library.AList" "HOL-Library.Signed_Division"
begin

text \<open>
  What the components of the development share: the values a Go operation can end with (a run-time
  panic or a result), the errors the program creates, Go's truncating integer division, slices with
  a capacity, and the decimal formatting verbs the program builds its identifiers with.

  A function that can panic returns \<open>'a go\<close>: \<open>Inl\<close> names the panic, \<open>Inr\<close> is the normal
  result. A Go \<open>error\<close> value is a \<open>go_error option\<close>, \<open>None\<close> standing for \<open>nil\<close>.
\<close>

unbundle bit_operations_syntax

section \<open>Bytes, panics and errors\<close>

type_synonym byte = "8 word"
type_synonym bytes = "8 word list"
type_synonym u32 = "32 word"
type_synonym u64 = "64 word"

named_theorems go_simps \<open>evaluation of the Go primitives\<close>

datatype go_panic =
    Index_Out_Of_Range
  | Slice_Bounds
  | Nil_Dereference
  | Close_Of_Closed
  | Makeslice_Range
  | Intn_Argument
  | Type_Assertion
  | Divide_By_Zero
  | Explicit_Panic

type_synonym 'a go = "go_panic + 'a"

text \<open>
  The errors of the repository by their variable or message, and \<open>Err_External n\<close> for an error
  value that a library or the operating system returned.
\<close>

datatype go_error =
    ErrStaleConnection
  | ErrNoServers
  | ErrBadTimeout
  | ErrConnectionClosed
  | ErrTimeout
  | Err_Not_Connack
  | Err_Connect_Failed
  | Err_EOF
  | Err_Use_Of_Closed_Conn
  | Err_Too_Many_Pairs
  | Err_Negative_Pairs
  | Err_No_Solution
  | Err_Config_Nil
  | Err_Online_Not_Positive
  | Err_Task_Running
  | Err_Task_Not_Running
  | Err_Server_Empty
  | Err_Request_Failed
  | Err_Unknown
  | Err_Message string
  | Err_External nat

fun go_bind :: "'a go \<Rightarrow> ('a \<Rightarrow> 'b go) \<Rightarrow> 'b go" where
  "go_bind (Inl p) f = Inl p"
| "go_bind (Inr x) f = f x"

lemma go_bind_Inr_conv [go_simps]:
  "go_bind m f = Inr y \<longleftrightarrow> (\<exists>x. m = Inr x \<and> f x = Inr y)"
  by (cases m) auto

lemma go_bindE:
  assumes "go_bind m f = Inr y"
  obtains x where "m = Inr x" and "f x = Inr y"
  using assms by (auto simp: go_bind_Inr_conv)

lemma go_bind_Inl_conv [go_simps]:
  "go_bind m f = Inl p \<longleftrightarrow> m = Inl p \<or> (\<exists>x. m = Inr x \<and> f x = Inl p)"
  by (cases m) auto

lemma go_bind_assoc: "go_bind (go_bind m f) g = go_bind m (\<lambda>x. go_bind (f x) g)"
  by (cases m) auto

lemma go_bind_cong [fundef_cong]:
  assumes "m = m'" and "\<And>x. m' = Inr x \<Longrightarrow> f x = f' x"
  shows "go_bind m f = go_bind m' f'"
  using assms by (cases m') auto

text \<open>A loop over a list, ended by the first panic.\<close>

fun go_each :: "('a \<Rightarrow> 's \<Rightarrow> 's go) \<Rightarrow> 'a list \<Rightarrow> 's \<Rightarrow> 's go" where
  "go_each f [] s = Inr s"
| "go_each f (x # xs) s = go_bind (f x s) (go_each f xs)"

lemma go_each_inv:
  assumes "go_each f xs s = Inr s'" and "P s"
    and "\<And>x s s'. x \<in> set xs \<Longrightarrow> f x s = Inr s' \<Longrightarrow> P s \<Longrightarrow> P s'"
  shows "P s'"
  using assms
proof (induction xs arbitrary: s)
  case (Cons x xs)
  from Cons.prems(1) obtain s1 where s1: "f x s = Inr s1" "go_each f xs s1 = Inr s'"
    by (auto elim: go_bindE)
  show ?case
  proof (rule Cons.IH [OF s1(2)])
    show "P s1" using Cons.prems(3) [OF _ s1(1) Cons.prems(2)] by simp
    show "P s''" if "y \<in> set xs" "f y s0 = Inr s''" "P s0" for y s0 s''
      using Cons.prems(3) [OF _ that(2,3)] that(1) by simp
  qed
qed simp

text \<open>A relation between the states before and after, with a cost that adds up over the rounds.\<close>

lemma go_each_cost:
  fixes R :: "int \<Rightarrow> 's \<Rightarrow> 's \<Rightarrow> bool"
  assumes "go_each f xs s = Inr s'"
    and "\<And>x s s'. x \<in> set xs \<Longrightarrow> f x s = Inr s' \<Longrightarrow> R b s s'"
    and "\<And>s. R 0 s s" and "\<And>m n s s' s''. R m s s' \<Longrightarrow> R n s' s'' \<Longrightarrow> R (m + n) s s''"
  shows "R (int (length xs) * b) s s'"
  using assms(1,2)
proof (induction xs arbitrary: s)
  case Nil
  then show ?case using assms(3) by simp
next
  case (Cons x xs)
  from Cons.prems(1) obtain s1 where s1: "f x s = Inr s1" "go_each f xs s1 = Inr s'"
    by (auto elim: go_bindE)
  have "R b s s1" using Cons.prems(2) [OF _ s1(1)] by simp
  moreover have "R (int (length xs) * b) s1 s'"
    by (rule Cons.IH [OF s1(2)]) (rule Cons.prems(2) [OF list.set_intros(2)])
  ultimately have "R (b + int (length xs) * b) s s'" by (rule assms(4))
  then show ?case by (simp add: algebra_simps)
qed

lemma unat_byte: "unat (d :: byte) < 256"
proof -
  have "unat d < 2 ^ LENGTH(8)" by (rule unsigned_less)
  then show ?thesis by simp
qed

section \<open>Integers\<close>

text \<open>64-bit integers wrap around.\<close>

definition wrap64 :: "int \<Rightarrow> int" where
  "wrap64 i = sint (word_of_int i :: 64 word)"

lemma wrap64_id: "- (2 ^ 63) \<le> i \<Longrightarrow> i < 2 ^ 63 \<Longrightarrow> wrap64 i = i"
  by (simp add: wrap64_def int_word_sint)

section \<open>Integer division\<close>

text \<open>Go truncates towards zero, and the remainder takes the sign of the dividend.\<close>

definition go_div :: "int \<Rightarrow> int \<Rightarrow> int" where
  "go_div a b = a sdiv b"

definition go_mod :: "int \<Rightarrow> int \<Rightarrow> int" where
  "go_mod a b = a smod b"

lemma go_div_nonneg: "0 \<le> a \<Longrightarrow> 0 \<le> b \<Longrightarrow> go_div a b = a div b"
  by (cases "a = 0") (auto simp: go_div_def signed_divide_int_def sgn_if)

lemma go_mod_nonneg: "0 \<le> a \<Longrightarrow> 0 \<le> b \<Longrightarrow> go_mod a b = a mod b"
  by (cases "a = 0") (auto simp: go_mod_def signed_modulo_int_def signed_divide_int_def sgn_if
      minus_div_mult_eq_mod [symmetric])

lemma go_div_mod: "go_div a b * b + go_mod a b = a"
  by (simp add: go_div_def go_mod_def sdiv_mult_smod_eq)

section \<open>Decimal formatting\<close>

definition digit_char :: "nat \<Rightarrow> char" where
  "digit_char d = char_of (48 + d)"

definition digit_val :: "char \<Rightarrow> nat" where
  "digit_val c = of_char c - 48"

fun dec :: "nat \<Rightarrow> string" where
  "dec n = (if n < 10 then [digit_char n] else dec (n div 10) @ [digit_char (n mod 10)])"

declare dec.simps [simp del]

definition undec :: "string \<Rightarrow> nat" where
  "undec s = foldl (\<lambda>a c. 10 * a + digit_val c) 0 s"

text \<open>\<open>%d\<close>, \<open>strconv.Itoa\<close> and \<open>%07d\<close>: the sign counts towards the width of seven.\<close>

definition itoa :: "int \<Rightarrow> string" where
  "itoa i = (if i < 0 then CHR ''-'' # dec (nat (- i)) else dec (nat i))"

definition sprintf_07d :: "int \<Rightarrow> string" where
  "sprintf_07d i =
     (if i < 0
      then CHR ''-'' # replicate (6 - length (dec (nat (- i)))) (CHR ''0'') @ dec (nat (- i))
      else replicate (7 - length (dec (nat i))) (CHR ''0'') @ dec (nat i))"

lemma digit_val_char: "d < 10 \<Longrightarrow> digit_val (digit_char d) = d"
  by (simp add: digit_val_def digit_char_def)

lemma digit_char_ge_48: "d < 10 \<Longrightarrow> (of_char (digit_char d) :: nat) = 48 + d"
  by (simp add: digit_char_def)

lemma undec_snoc: "undec (s @ [c]) = 10 * undec s + digit_val c"
  by (simp add: undec_def)

lemma undec_dec [simp]: "undec (dec n) = n"
proof (induction n rule: dec.induct)
  case (1 n)
  show ?case
  proof (cases "n < 10")
    case True
    then show ?thesis by (simp add: dec.simps [of n] undec_def digit_val_char)
  next
    case False
    with "1.IH" show ?thesis by (simp add: dec.simps [of n] undec_snoc digit_val_char)
  qed
qed

lemma dec_inj: "dec m = dec n \<longleftrightarrow> m = n"
  by (metis undec_dec)

lemma dec_digits: "c \<in> set (dec n) \<Longrightarrow> 48 \<le> (of_char c :: nat) \<and> (of_char c :: nat) < 58"
proof (induction n rule: dec.induct)
  case (1 n)
  show ?case
  proof (cases "n < 10")
    case True
    with "1.prems" show ?thesis by (simp add: dec.simps [of n] digit_char_ge_48)
  next
    case False
    with "1.prems" consider "c \<in> set (dec (n div 10))" | "c = digit_char (n mod 10)"
      by (auto simp: dec.simps [of n])
    then show ?thesis
      by cases (use "1.IH" False in \<open>auto simp: digit_char_ge_48\<close>)
  qed
qed

lemma dec_not_empty [simp]: "dec n \<noteq> []"
  by (simp add: dec.simps [of n])

lemma undec_zeros: "undec (replicate k (CHR ''0'') @ s) = undec s"
proof (induction k)
  case 0
  show ?case by simp
next
  case (Suc k)
  then show ?case by (simp add: undec_def digit_val_def)
qed

lemma undec_sprintf_07d: "0 \<le> i \<Longrightarrow> undec (sprintf_07d i) = nat i"
  by (simp add: sprintf_07d_def undec_zeros)

lemma sprintf_07d_inj: "0 \<le> i \<Longrightarrow> 0 \<le> j \<Longrightarrow> sprintf_07d i = sprintf_07d j \<longleftrightarrow> i = j"
  by (metis undec_sprintf_07d nat_eq_iff)

lemma dec_no_colon: "CHR '':'' \<notin> set (dec n)"
  using dec_digits [of "CHR '':''" n] by auto

lemma sprintf_07d_no_colon: "CHR '':'' \<notin> set (sprintf_07d i)"
  by (auto simp: sprintf_07d_def dec_no_colon)

lemma itoa_no_colon: "CHR '':'' \<notin> set (itoa i)"
  by (auto simp: itoa_def dec_no_colon)

text \<open>A separator that occurs in neither tail fixes where a string is cut.\<close>

lemma append_sep_inj:
  assumes "c \<notin> set xs" and "c \<notin> set xs'" and "xs @ c # ys = xs' @ c # ys'"
  shows "xs = xs' \<and> ys = ys'"
  using assms
proof (induction xs arbitrary: xs')
  case Nil
  then show ?case by (cases xs') auto
next
  case (Cons a xs)
  then show ?case by (cases xs') auto
qed

section \<open>Slices\<close>

text \<open>
  A Go slice is a window onto a backing array: \<open>backing\<close> holds the array from the start of the
  slice to the end of its capacity, \<open>slen\<close> is the length. \<open>append\<close> writes into the spare
  capacity when there is some and otherwise allocates; how much spare capacity the run time leaves
  (\<open>spare\<close>, a function of the new length) is its own choice, so it is a parameter.
\<close>

record 'a gslice =
  backing :: "'a list"
  slen :: nat

definition slice_ok :: "'a gslice \<Rightarrow> bool" where
  "slice_ok s \<longleftrightarrow> slen s \<le> length (backing s)"

definition elems :: "'a gslice \<Rightarrow> 'a list" where
  "elems s = take (slen s) (backing s)"

definition nil_slice :: "'a gslice" where
  "nil_slice = \<lparr>backing = [], slen = 0\<rparr>"

definition go_append :: "(nat \<Rightarrow> nat) \<Rightarrow> 'a \<Rightarrow> 'a gslice \<Rightarrow> 'a \<Rightarrow> 'a gslice" where
  "go_append spare zero s x =
     (if slen s < length (backing s)
      then s\<lparr>backing := (backing s)[slen s := x], slen := Suc (slen s)\<rparr>
      else s\<lparr>backing := elems s @ x # replicate (spare (Suc (slen s))) zero,
             slen := Suc (slen s)\<rparr>)"

text \<open>\<open>s[i:j]\<close>: the upper bound is checked against the capacity, not against the length.\<close>

definition go_slice :: "'a gslice \<Rightarrow> int \<Rightarrow> int \<Rightarrow> 'a list go" where
  "go_slice s i j =
     (if 0 \<le> i \<and> i \<le> j \<and> j \<le> int (length (backing s))
      then Inr (take (nat j - nat i) (drop (nat i) (backing s)))
      else Inl Slice_Bounds)"

definition go_index :: "'a list \<Rightarrow> int \<Rightarrow> 'a go" where
  "go_index xs i =
     (if 0 \<le> i \<and> i < int (length xs) then Inr (xs ! nat i) else Inl Index_Out_Of_Range)"

lemma nil_slice_simps [simp]: "elems nil_slice = []" "slen nil_slice = 0" "slice_ok nil_slice"
  by (simp_all add: nil_slice_def elems_def slice_ok_def)

lemma length_elems: "slice_ok s \<Longrightarrow> length (elems s) = slen s"
  by (simp add: elems_def slice_ok_def)

lemma go_append_slen [simp]: "slen (go_append spare z s x) = Suc (slen s)"
  by (simp add: go_append_def)

lemma go_append_elems: "slice_ok s \<Longrightarrow> elems (go_append spare z s x) = elems s @ [x]"
  by (auto simp: go_append_def elems_def slice_ok_def take_Suc_conv_app_nth)

lemma go_append_ok: "slice_ok s \<Longrightarrow> slice_ok (go_append spare z s x)"
  by (auto simp: go_append_def elems_def slice_ok_def)

lemma go_slice_within:
  assumes "slice_ok s" and "0 \<le> i" and "i \<le> j" and "j \<le> int (slen s)"
  shows "go_slice s i j = Inr (take (nat j - nat i) (drop (nat i) (elems s)))"
  using assms by (auto simp: go_slice_def slice_ok_def elems_def drop_take)

end
