(* ===== verification/Go_Strings.thy ===== *)
theory Go_Strings
  imports Prelude
begin

text \<open>
  What the program uses of the packages \<^verbatim>\<open>strings\<close>, \<^verbatim>\<open>strconv\<close> and
  \<^verbatim>\<open>encoding/base64\<close>. Strings are byte strings; case folding and white space are those of the
  ASCII range, in which the addresses, identifiers and configuration values of the program lie.
\<close>

section \<open>strings\<close>

definition HasPrefix :: "string \<Rightarrow> string \<Rightarrow> bool" where
  "HasPrefix s prefix \<longleftrightarrow> take (length prefix) s = prefix"

fun Contains :: "string \<Rightarrow> string \<Rightarrow> bool" where
  "Contains [] sub \<longleftrightarrow> sub = []"
| "Contains (c # cs) sub \<longleftrightarrow> HasPrefix (c # cs) sub \<or> Contains cs sub"

text \<open>\<^verbatim>\<open>strings.Split\<close> with a non-empty separator; the accumulator holds the current piece.\<close>

function split_acc :: "string \<Rightarrow> string \<Rightarrow> string \<Rightarrow> string list" where
  "split_acc sep acc s =
     (case s of [] \<Rightarrow> [acc]
      | c # cs \<Rightarrow>
          if sep \<noteq> [] \<and> HasPrefix s sep then acc # split_acc sep [] (drop (length sep) s)
          else split_acc sep (acc @ [c]) cs)"
  by pat_completeness auto
termination
  by (relation "measure (\<lambda>(sep, acc, s). length s)") auto

declare split_acc.simps [simp del]

definition Split :: "string \<Rightarrow> string \<Rightarrow> string list" where
  "Split s sep = split_acc sep [] s"

definition to_lower_char :: "char \<Rightarrow> char" where
  "to_lower_char c =
     (let n = (of_char c :: nat) in if 65 \<le> n \<and> n \<le> 90 then char_of (n + 32) else c)"

definition ToLower :: "string \<Rightarrow> string" where
  "ToLower s = map to_lower_char s"

definition is_space :: "char \<Rightarrow> bool" where
  "is_space c \<longleftrightarrow> (let n = (of_char c :: nat) in n = 32 \<or> (9 \<le> n \<and> n \<le> 13))"

definition TrimSpace :: "string \<Rightarrow> string" where
  "TrimSpace s = rev (dropWhile is_space (rev (dropWhile is_space s)))"

definition TrimSuffix :: "string \<Rightarrow> string \<Rightarrow> string" where
  "TrimSuffix s suffix =
     (if suffix \<noteq> [] \<and> length suffix \<le> length s \<and> drop (length s - length suffix) s = suffix
      then take (length s - length suffix) s else s)"

text \<open>\<^verbatim>\<open>strings.ReplaceAll(s, c, "")\<close> for a single character.\<close>

definition RemoveAll :: "string \<Rightarrow> char \<Rightarrow> string" where
  "RemoveAll s c = filter (\<lambda>x. x \<noteq> c) s"

section \<open>strconv\<close>

definition is_digit :: "char \<Rightarrow> bool" where
  "is_digit c \<longleftrightarrow> 48 \<le> (of_char c :: nat) \<and> (of_char c :: nat) < 58"

datatype num_error = ErrSyntax | ErrRange

text \<open>\<^verbatim>\<open>strconv.ParseInt(s, 10, 64)\<close> and, on 64-bit platforms, \<^verbatim>\<open>strconv.Atoi\<close>: a syntax error
  yields 0, a value out of range the nearest bound.\<close>

definition ParseInt :: "string \<Rightarrow> int \<times> num_error option" where
  "ParseInt s =
     (let neg = (case s of c # _ \<Rightarrow> c = CHR ''-'' | [] \<Rightarrow> False);
          body = (case s of c # cs \<Rightarrow> if c = CHR ''-'' \<or> c = CHR ''+'' then cs else s | [] \<Rightarrow> s);
          v = int (undec body)
      in if body = [] \<or> \<not> list_all is_digit body then (0, Some ErrSyntax)
         else if neg then (if 2 ^ 63 < v then (- (2 ^ 63), Some ErrRange) else (- v, None))
         else (if 2 ^ 63 - 1 < v then (2 ^ 63 - 1, Some ErrRange) else (v, None)))"

lemma list_all_digit_dec: "list_all is_digit (dec n)"
  using dec_digits [of _ n] by (simp add: list_all_iff is_digit_def)

lemma hd_dec_digit: "dec n = c # cs \<Longrightarrow> c \<noteq> CHR ''-'' \<and> c \<noteq> CHR ''+''"
  using dec_digits [of c n] by auto

text \<open>Printing and parsing a 64-bit integer.\<close>

lemma ParseInt_itoa:
  assumes "- (2 ^ 63) \<le> i" and "i < 2 ^ 63"
  shows "ParseInt (itoa i) = (i, None)"
proof (cases "i < 0")
  case True
  with assms show ?thesis
    by (simp add: ParseInt_def itoa_def list_all_digit_dec)
next
  case False
  obtain c cs where d: "dec (nat i) = c # cs" by (cases "dec (nat i)") auto
  with hd_dec_digit [OF d] list_all_digit_dec [of "nat i"] undec_dec [of "nat i"] False assms
  show ?thesis by (simp add: ParseInt_def itoa_def)
qed

lemma HasPrefix_append [simp]: "HasPrefix (p @ s) p"
  by (simp add: HasPrefix_def)

lemma HasPrefix_iff: "HasPrefix s p \<longleftrightarrow> (\<exists>t. s = p @ t)"
  by (auto simp: HasPrefix_def) (metis append_take_drop_id)

lemma Contains_iff: "Contains s sub \<longleftrightarrow> (\<exists>a b. s = a @ sub @ b)"
proof (induction s)
  case Nil
  show ?case by auto
next
  case (Cons c cs)
  have "(\<exists>a b. c # cs = a @ sub @ b) \<longleftrightarrow>
      (\<exists>b. c # cs = sub @ b) \<or> (\<exists>a b. cs = a @ sub @ b)"
    by (metis append_Cons append_Nil list.exhaust list.inject)
  with Cons show ?case by (simp add: HasPrefix_iff)
qed

text \<open>Splitting at a single character.\<close>

lemma split_acc_char:
  "split_acc [c] acc s =
     (if c \<in> set s
      then (acc @ takeWhile (\<lambda>x. x \<noteq> c) s) # split_acc [c] [] (tl (dropWhile (\<lambda>x. x \<noteq> c) s))
      else [acc @ s])"
proof (induction s arbitrary: acc)
  case Nil
  show ?case by (simp add: split_acc.simps)
next
  case (Cons a s)
  then show ?case by (auto simp: split_acc.simps [of _ _ "a # s"] HasPrefix_def)
qed

lemma Split_char_none: "c \<notin> set s \<Longrightarrow> Split s [c] = [s]"
  by (simp add: Split_def split_acc_char)

lemma Split_char_cons:
  assumes "c \<notin> set a"
  shows "Split (a @ c # b) [c] = a # Split b [c]"
proof -
  from assms have "takeWhile (\<lambda>x. x \<noteq> c) (a @ c # b) = a" "dropWhile (\<lambda>x. x \<noteq> c) (a @ c # b) = c # b"
    by (induction a) auto
  then show ?thesis by (simp add: Split_def split_acc_char [of c "[]" "a @ c # b"])
qed

lemma length_Split_char: "length (Split s [c]) = Suc (count_list s c)"
proof (induction s rule: length_induct)
  case (1 s)
  show ?case
  proof (cases "c \<in> set s")
    case False
    then show ?thesis by (simp add: Split_char_none count_list_0_iff)
  next
    case True
    then obtain a b where "s = a @ c # b" "c \<notin> set a" by (metis split_list_first)
    with "1" show ?thesis by (simp add: Split_char_cons count_list_0_iff)
  qed
qed

section \<open>encoding/base64\<close>

text \<open>The standard alphabet and its inverse.\<close>

definition b64_char :: "nat \<Rightarrow> char" where
  "b64_char n =
     (if n < 26 then char_of (65 + n) else if n < 52 then char_of (97 + (n - 26))
      else if n < 62 then char_of (48 + (n - 52)) else if n = 62 then CHR ''+'' else CHR ''/'')"

definition b64_val :: "char \<Rightarrow> nat option" where
  "b64_val c =
     (let n = (of_char c :: nat)
      in if 65 \<le> n \<and> n \<le> 90 then Some (n - 65) else if 97 \<le> n \<and> n \<le> 122 then Some (n - 97 + 26)
         else if 48 \<le> n \<and> n \<le> 57 then Some (n - 48 + 52) else if n = 43 then Some 62
         else if n = 47 then Some 63 else None)"

fun b64_EncodeToString :: "bytes \<Rightarrow> string" where
  "b64_EncodeToString [] = []"
| "b64_EncodeToString [a] =
     [b64_char (unat a div 4), b64_char (unat a mod 4 * 16), CHR ''='', CHR ''='']"
| "b64_EncodeToString [a, b] =
     [b64_char (unat a div 4), b64_char (unat a mod 4 * 16 + unat b div 16),
      b64_char (unat b mod 16 * 4), CHR ''='']"
| "b64_EncodeToString (a # b # c # rest) =
     [b64_char (unat a div 4), b64_char (unat a mod 4 * 16 + unat b div 16),
      b64_char (unat b mod 16 * 4 + unat c div 64), b64_char (unat c mod 64)]
     @ b64_EncodeToString rest"

text \<open>Decoding ignores line breaks; padding ends the input; trailing bits are not checked.\<close>

fun b64_quanta :: "string \<Rightarrow> bytes option" where
  "b64_quanta [] = Some []"
| "b64_quanta (w # x # y # z # rest) =
     (case (b64_val w, b64_val x) of
        (Some p, Some q) \<Rightarrow>
          (if y = CHR ''='' then
             (if z = CHR ''='' \<and> rest = [] then Some [of_nat (p * 4 + q div 16)] else None)
           else case b64_val y of
             None \<Rightarrow> None
           | Some r \<Rightarrow>
               if z = CHR ''='' then
                 (if rest = []
                  then Some [of_nat (p * 4 + q div 16), of_nat (q mod 16 * 16 + r div 4)] else None)
               else case b64_val z of
                 None \<Rightarrow> None
               | Some s \<Rightarrow>
                   map_option (\<lambda>bs. of_nat (p * 4 + q div 16) # of_nat (q mod 16 * 16 + r div 4)
                                      # of_nat (r mod 4 * 64 + s) # bs)
                     (b64_quanta rest))
      | _ \<Rightarrow> None)"
| "b64_quanta _ = None"

text \<open>
  \<^verbatim>\<open>DecodeString\<close> fills a buffer of \<open>DecodedLen\<close> bytes and returns its used front part, so the
  capacity of the result is \<open>DecodedLen\<close>: a slice with zeroes behind the decoded bytes.
\<close>

definition b64_DecodeString :: "string \<Rightarrow> byte gslice option" where
  "b64_DecodeString s =
     (case b64_quanta (filter (\<lambda>c. c \<noteq> CHR 0x0D \<and> c \<noteq> CHR 0x0A) s) of
        None \<Rightarrow> None
      | Some bs \<Rightarrow>
          Some \<lparr>backing = bs @ replicate (length s div 4 * 3 - length bs) 0, slen = length bs\<rparr>)"

lemma b64_val_char: "n < 64 \<Longrightarrow> b64_val (b64_char n) = Some n"
  by (auto simp: b64_val_def b64_char_def Let_def)

lemma b64_char_plain: "n < 64 \<Longrightarrow> b64_char n \<noteq> CHR ''='' \<and> b64_char n \<noteq> CHR 0x0D \<and> b64_char n \<noteq> CHR 0x0A"
  using b64_val_char [of n] by (auto simp: b64_val_def)

lemma group_div: "(y :: nat) < m \<Longrightarrow> (x * m + y) div m = x"
  and group_mod: "(y :: nat) < m \<Longrightarrow> (x * m + y) mod m = y"
  by (auto simp: div_mult_self3 mult.commute)

lemma byte_parts:
  fixes a b c :: byte
  shows "unat a div 4 < 64" "unat a mod 4 * 16 + unat b div 16 < 64"
    "unat b mod 16 * 4 + unat c div 64 < 64" "unat c mod 64 < 64" "unat b mod 16 * 4 < 64"
    "unat a mod 4 * 16 < 64" "unat b div 16 < 16" "unat c div 64 < 4"
  using unat_byte [of a] unat_byte [of b] unat_byte [of c] by auto

lemma b64_quanta_encode: "b64_quanta (b64_EncodeToString bs) = Some bs"
proof (induction bs rule: b64_EncodeToString.induct)
  case (2 a)
  show ?case
    by (simp add: byte_parts b64_val_char b64_char_plain)
next
  case (3 a b)
  show ?case
    by (simp add: byte_parts b64_val_char b64_char_plain group_div group_mod)
next
  case (4 a b c rest)
  then show ?case
    by (simp add: byte_parts b64_val_char b64_char_plain group_div group_mod)
qed simp

lemma b64_encode_plain:
  "c \<in> set (b64_EncodeToString bs) \<Longrightarrow> c \<noteq> CHR 0x0D \<and> c \<noteq> CHR 0x0A"
  by (induction bs rule: b64_EncodeToString.induct)
    (use byte_parts b64_char_plain in \<open>auto 0 3\<close>)

lemma length_b64: "length (b64_EncodeToString bs) = (length bs + 2) div 3 * 4"
proof (induction bs rule: b64_EncodeToString.induct)
  case (4 a b c rest)
  have "(length (a # b # c # rest) + 2) div 3 = Suc ((length rest + 2) div 3)" by simp
  with 4 show ?case by simp
qed simp_all

lemma b64_roundtrip:
  "b64_DecodeString (b64_EncodeToString bs) =
     Some \<lparr>backing = bs @ replicate ((length bs + 2) div 3 * 3 - length bs) 0, slen = length bs\<rparr>"
proof -
  have "filter (\<lambda>c. c \<noteq> CHR 0x0D \<and> c \<noteq> CHR 0x0A) (b64_EncodeToString bs) = b64_EncodeToString bs"
    using b64_encode_plain by (intro filter_True) blast
  then show ?thesis
    by (simp add: b64_DecodeString_def b64_quanta_encode length_b64)
qed

end
