(* ===== verification/Wk_Uuid.thy ===== *)
theory Wk_Uuid
  imports Go_Strings
begin

text \<open>
  \<^verbatim>\<open>pkg/wkutil/uuid.go\<close>: identifiers without dashes, from the text of the UUID that the library
  generates, which is an argument. The clients take the identifiers of their connections and
  messages from it, and a machine the end of its own.
\<close>

definition GenUUID :: "string \<Rightarrow> string" where
  "GenUUID u1 = RemoveAll u1 (CHR ''-'')"

text \<open>The text form of a UUID: five groups, joined by dashes.\<close>

definition uuid_text :: "string \<Rightarrow> bool" where
  "uuid_text u \<longleftrightarrow> map length (Split u ''-'') = [8, 4, 4, 4, 12]"

lemma Split_acc_remove:
  "concat (split_acc [c] acc s) = acc @ RemoveAll s c"
proof (induction s arbitrary: acc)
  case Nil
  show ?case by (simp add: split_acc.simps RemoveAll_def)
next
  case (Cons x s)
  show ?case
    using Cons [of "[]"] Cons [of "acc @ [x]"]
    by (subst split_acc.simps) (auto simp: HasPrefix_def RemoveAll_def)
qed

lemma GenUUID_groups: "GenUUID u = concat (Split u ''-'')"
  by (simp add: GenUUID_def Split_def Split_acc_remove)

lemma GenUUID_length: "uuid_text u \<Longrightarrow> length (GenUUID u) = 32"
  by (simp add: GenUUID_groups uuid_text_def length_concat)

lemma GenUUID_no_dash: "CHR ''-'' \<notin> set (GenUUID u)"
  by (simp add: GenUUID_def RemoveAll_def)

end
