(* ===== verification/Client_Config.thy ===== *)
theory Client_Config
  imports Wk_Uuid
begin

text \<open>
  Options and constants of the client: \<^verbatim>\<open>pkg/client/options.go\<close> and
  \<^verbatim>\<open>pkg/client/const.go\<close>, and the address parser of \<^verbatim>\<open>pkg/client/client.go\<close>. Durations are
  nanoseconds.
\<close>

section \<open>Connection status\<close>

datatype status = DISCONNECTED | CONNECTED | CLOSED | RECONNECTING | CONNECTING

fun Status_String :: "status \<Rightarrow> string" where
  "Status_String DISCONNECTED = ''DISCONNECTED''"
| "Status_String CONNECTED = ''CONNECTED''"
| "Status_String CLOSED = ''CLOSED''"
| "Status_String RECONNECTING = ''RECONNECTING''"
| "Status_String CONNECTING = ''CONNECTING''"

lemma Status_String_inj: "Status_String s = Status_String t \<longleftrightarrow> s = t"
  by (cases s; cases t) auto

section \<open>Client options\<close>

record copts =
  ProtoVersion :: byte
  UID :: string
  Token :: string
  AutoReconn :: bool
  DefaultBufSize :: int
  ReconnectBufSize :: int
  FlusherTimeout :: int
  Timeout :: int
  PingInterval :: int
  MaxPingCount :: int
  ReconnectJitter :: int
  ReconnectWait :: int

text \<open>The newest protocol version is a constant of the protocol package.\<close>

definition NewOptions :: "byte \<Rightarrow> copts" where
  "NewOptions LatestVersion =
     \<lparr>ProtoVersion = LatestVersion, UID = [], Token = [], AutoReconn = False,
      DefaultBufSize = 1024 * 1024 * 3, ReconnectBufSize = 8 * 1024 * 1024,
      FlusherTimeout = 0, Timeout = 2 * 10 ^ 9, PingInterval = 120 * 10 ^ 9, MaxPingCount = 2,
      ReconnectJitter = 100 * 10 ^ 6, ReconnectWait = 2 * 10 ^ 9\<rparr>"

text \<open>An option updates the options and may return an error.\<close>

type_synonym 'o option_fn = "'o \<Rightarrow> 'o \<times> go_error option"

definition WithProtoVersion :: "byte \<Rightarrow> copts option_fn" where
  "WithProtoVersion version opts = (opts\<lparr>ProtoVersion := version\<rparr>, None)"

definition WithUID :: "string \<Rightarrow> copts option_fn" where
  "WithUID uid opts = (opts\<lparr>UID := uid\<rparr>, None)"

definition WithToken :: "string \<Rightarrow> copts option_fn" where
  "WithToken token opts = (opts\<lparr>Token := token\<rparr>, None)"

definition WithAutoReconn :: "bool \<Rightarrow> copts option_fn" where
  "WithAutoReconn autoReconn opts = (opts\<lparr>AutoReconn := autoReconn\<rparr>, None)"

definition WithDefaultBufSize :: "int \<Rightarrow> copts option_fn" where
  "WithDefaultBufSize defaultBufSize opts = (opts\<lparr>DefaultBufSize := defaultBufSize\<rparr>, None)"

section \<open>Send options\<close>

record sendOptions =
  so_NoPersist :: bool
  so_SyncOnce :: bool
  so_Flush :: bool
  so_RedDot :: bool
  so_NoEncrypt :: bool
  so_ClientMsgNo :: string

definition NewSendOptions :: sendOptions where
  "NewSendOptions = \<lparr>so_NoPersist = False, so_SyncOnce = False, so_Flush = True, so_RedDot = True,
     so_NoEncrypt = False, so_ClientMsgNo = []\<rparr>"

definition SendOptionWithNoPersist :: "bool \<Rightarrow> sendOptions option_fn" where
  "SendOptionWithNoPersist noPersist opts = (opts\<lparr>so_NoPersist := noPersist\<rparr>, None)"

definition SendOptionWithSyncOnce :: "bool \<Rightarrow> sendOptions option_fn" where
  "SendOptionWithSyncOnce syncOnce opts = (opts\<lparr>so_SyncOnce := syncOnce\<rparr>, None)"

definition SendOptionWithFlush :: "bool \<Rightarrow> sendOptions option_fn" where
  "SendOptionWithFlush flush opts = (opts\<lparr>so_Flush := flush\<rparr>, None)"

definition SendOptionWithRedDot :: "bool \<Rightarrow> sendOptions option_fn" where
  "SendOptionWithRedDot redDot opts = (opts\<lparr>so_RedDot := redDot\<rparr>, None)"

definition SendOptionWithClientMsgNo :: "string \<Rightarrow> sendOptions option_fn" where
  "SendOptionWithClientMsgNo clientMsgNo opts = (opts\<lparr>so_ClientMsgNo := clientMsgNo\<rparr>, None)"

definition SendOptionWithNoEncrypt :: "bool \<Rightarrow> sendOptions option_fn" where
  "SendOptionWithNoEncrypt noEncrypt opts = (opts\<lparr>so_NoEncrypt := noEncrypt\<rparr>, None)"

text \<open>\<^verbatim>\<open>SendMessage\<close> applies its options in order and ignores their errors.\<close>

definition apply_send_options :: "sendOptions option_fn list \<Rightarrow> sendOptions" where
  "apply_send_options opt = foldl (\<lambda>opts op. fst (op opts)) NewSendOptions opt"

section \<open>Addresses\<close>

text \<open>\<^verbatim>\<open>parseAddr\<close>: network, address and port; a scheme without a port panics.\<close>

definition parseAddr :: "string \<Rightarrow> (string \<times> string \<times> int) go" where
  "parseAddr addr =
     (let network = ''tcp''; address = ToLower addr
      in if Contains address ''://'' then
           (let pair = Split address ''://''
            in go_bind (go_index pair 0) (\<lambda>network.
               go_bind (go_index pair 1) (\<lambda>address.
               go_bind (go_index (Split address '':'') 1) (\<lambda>portStr.
               Inr (network, address, fst (ParseInt portStr))))))
         else Inr (network, address, 0))"

end
