(* ===== verification/Framing.thy ===== *)
theory Framing
  imports Prelude
begin

text \<open>
  Packet framing of the client: \<^verbatim>\<open>decodeLength\<close>, \<^verbatim>\<open>parse\<close> and \<^verbatim>\<open>gnetUnpacket\<close> of
  \<^verbatim>\<open>pkg/client/common.go\<close>, and the buffer that \<^verbatim>\<open>readLoop\<close> keeps between reads.

  The frame type codes belong to the protocol package, so the two that the framing compares with
  are a parameter.
\<close>

section \<open>The code\<close>

record frame_codes =
  PING :: "8 word"
  PONG :: "8 word"

text \<open>The remaining-length field: seven bits per byte, least significant group first.\<close>

function decodeLength_loop :: "bytes \<Rightarrow> u32 \<Rightarrow> u32 \<Rightarrow> nat \<Rightarrow> int \<times> nat \<times> bool" where
  "decodeLength_loop data rLength multiplier offset =
     (if multiplier < 27 then
        (if length data \<le> offset then (0, 0, False)
         else let digit = data ! offset;
                  rLength' = rLength OR push_bit (unat multiplier) (ucast (digit AND 127))
              in if digit AND 128 = 0 then (uint rLength', Suc offset, True)
                 else decodeLength_loop data rLength' (multiplier + 7) (Suc offset))
      else (uint rLength, offset, True))"
  by pat_completeness auto
termination
proof (relation "measure (\<lambda>(data, r, m, offset). 27 - unat m)", goal_cases)
  case 1
  show ?case by simp
next
  case (2 data r m offset digit r')
  then have "unat m < 27" by (simp add: word_less_nat_alt)
  then have "unat (m + 7) = unat m + 7" by (simp add: unat_word_ariths)
  with \<open>unat m < 27\<close> show ?case by simp
qed

declare decodeLength_loop.simps [simp del]

definition decodeLength :: "bytes \<Rightarrow> int \<times> nat \<times> bool" where
  "decodeLength data = decodeLength_loop data 0 0 0"

text \<open>A result of the two splitters: packet data and remaining data, \<open>None\<close> for a nil slice,
  and the error, which is always nil.\<close>

type_synonym split_result = "bytes option \<times> bytes option \<times> go_error option"

function parse_loop :: "frame_codes \<Rightarrow> bytes \<Rightarrow> nat \<Rightarrow> bytes \<Rightarrow> nat \<times> bytes" where
  "parse_loop K buff offset packetData =
     (if offset < length buff then
        let typeAndFlags = buff ! offset; packetType = drop_bit 4 typeAndFlags
        in if packetType = PING K \<or> packetType = PONG K
           then parse_loop K buff (Suc offset) (packetData @ [buff ! offset])
           else (case decodeLength (drop (Suc offset) buff) of (reminLen, readSize, has) \<Rightarrow>
             if \<not> has then (offset, packetData)
             else let dataEnd = offset + readSize + nat reminLen + 1
                  in if dataEnd \<le> length buff
                     then parse_loop K buff dataEnd
                            (packetData @ take (dataEnd - offset) (drop offset buff))
                     else (offset, packetData))
      else (offset, packetData))"
  by pat_completeness auto
termination
  by (relation "measure (\<lambda>(K, buff, offset, pd). length buff - offset)") auto

declare parse_loop.simps [simp del]

definition parse :: "frame_codes \<Rightarrow> bytes \<Rightarrow> split_result" where
  "parse K buff =
     (if length buff = 0 then (None, None, None)
      else let packetData = snd (parse_loop K buff 0 [])
           in if 0 < length packetData
              then (Some packetData, Some (drop (length packetData) buff), None)
              else (None, Some buff, None))"

function gnetUnpacket_loop :: "frame_codes \<Rightarrow> bytes \<Rightarrow> nat \<Rightarrow> nat" where
  "gnetUnpacket_loop K buff offset =
     (if offset < length buff then
        let typeAndFlags = buff ! offset; packetType = drop_bit 4 typeAndFlags
        in if packetType = PING K \<or> packetType = PONG K
           then gnetUnpacket_loop K buff (Suc offset)
           else (case decodeLength (drop (Suc offset) buff) of (reminLen, readSize, has) \<Rightarrow>
             if \<not> has then offset
             else let dataEnd = offset + readSize + nat reminLen + 1
                  in if dataEnd \<le> length buff then gnetUnpacket_loop K buff dataEnd
                     else offset)
      else offset)"
  by pat_completeness auto
termination
  by (relation "measure (\<lambda>(K, buff, offset). length buff - offset)") auto

declare gnetUnpacket_loop.simps [simp del]

definition gnetUnpacket :: "frame_codes \<Rightarrow> bytes \<Rightarrow> split_result" where
  "gnetUnpacket K buff =
     (if length buff \<le> 0 then (None, None, None)
      else let offset = gnetUnpacket_loop K buff 0
           in if 0 < offset then (Some (take offset buff), Some (drop offset buff), None)
              else (None, Some buff, None))"

text \<open>
  One successful non-empty read of \<^verbatim>\<open>readLoop\<close>: the bytes are appended to \<open>tmpBuff\<close>, the
  complete packets are split off, and what remains becomes the next \<open>tmpBuff\<close>. The first
  component is \<open>packetData\<close>, with nil read as the empty slice since only its length is used.
\<close>

definition read_chunk :: "frame_codes \<Rightarrow> bytes \<Rightarrow> bytes \<Rightarrow> bytes \<times> bytes" where
  "read_chunk K tmpBuff buf =
     (case parse K (tmpBuff @ buf) of (packetData, remainingData, err) \<Rightarrow>
        ((case packetData of None \<Rightarrow> [] | Some d \<Rightarrow> d),
         (case remainingData of None \<Rightarrow> [] | Some r \<Rightarrow> r)))"

text \<open>A run of such reads: every \<open>packetData\<close> in order, and the last \<open>tmpBuff\<close>.\<close>

fun read_chunks :: "frame_codes \<Rightarrow> bytes \<Rightarrow> bytes list \<Rightarrow> bytes list \<times> bytes" where
  "read_chunks K tmpBuff [] = ([], tmpBuff)"
| "read_chunks K tmpBuff (c # cs) =
     (if length c = 0 then read_chunks K tmpBuff cs
      else case read_chunk K tmpBuff c of (pd, rest) \<Rightarrow>
             case read_chunks K rest cs of (pds, left) \<Rightarrow> (pd # pds, left))"

section \<open>The remaining-length field\<close>

subsection \<open>One digit at a time, on natural numbers\<close>

text \<open>The reference decoder: at most \<open>fuel\<close> groups, no machine words.\<close>

fun varint_value :: "nat \<Rightarrow> bytes \<Rightarrow> (nat \<times> nat) option" where
  "varint_value 0 data = Some (0, 0)"
| "varint_value (Suc fuel) [] = None"
| "varint_value (Suc fuel) (d # ds) =
     (if unat d < 128 then Some (unat d, 1)
      else case varint_value fuel ds of None \<Rightarrow> None
           | Some (v, k) \<Rightarrow> Some (unat d - 128 + 128 * v, Suc k))"

text \<open>The reference encoder of a length below \<open>2 ^ 28\<close>.\<close>

fun varint_bytes :: "nat \<Rightarrow> bytes" where
  "varint_bytes n =
     (if n < 128 then [of_nat n] else of_nat (n mod 128 + 128) # varint_bytes (n div 128))"

declare varint_bytes.simps [simp del]

lemma and_127_unat: "unat (d AND 127 :: byte) = unat d mod 128"
proof -
  have "(127 :: byte) = mask 7" by (simp add: mask_eq_exp_minus_1)
  then have "unat (d AND 127) = unat (take_bit 7 d)" by (simp only: take_bit_eq_mask)
  also have "\<dots> = take_bit 7 (unat d)" by (rule unsigned_take_bit_eq)
  also have "\<dots> = unat d mod 128" by (simp add: take_bit_eq_mod)
  finally show ?thesis .
qed

lemma or_push_bit_nat:
  fixes r x m :: nat
  assumes "r < 2 ^ m"
  shows "r OR push_bit m x = r + 2 ^ m * x"
proof -
  have r: "take_bit m r = r" using assms by (simp add: take_bit_nat_eq_self)
  have "r AND push_bit m x = 0"
  proof (rule bit_eqI)
    fix n
    have "bit r n \<Longrightarrow> n < m" using r by (metis bit_take_bit_iff)
    then show "bit (r AND push_bit m x) n \<longleftrightarrow> bit (0::nat) n"
      by (auto simp: bit_and_iff bit_push_bit_iff)
  qed
  then have "r + push_bit m x = r OR push_bit m x" by (rule disjunctive_add_eq_or)
  then show ?thesis by (simp add: push_bit_eq_mult mult.commute)
qed

lemma or_group_unat:
  assumes "k \<le> 3" and "unat r < 2 ^ (7 * k)"
  shows "unat (r OR push_bit (7 * k) (ucast (d AND 127 :: byte)) :: u32)
           = unat r + 2 ^ (7 * k) * (unat d mod 128)"
proof -
  let ?x = "unat d mod 128"
  have u: "unat (ucast (d AND 127) :: u32) = ?x"
    by (simp add: unsigned_ucast_eq and_127_unat take_bit_nat_eq_self)
  have "2 ^ (7 * k) * ?x < 2 ^ (7 * k) * 128" by simp
  also have "\<dots> \<le> (2 :: nat) ^ 21 * 128"
    using assms(1) by (intro mult_right_mono power_increasing) auto
  finally have "2 ^ (7 * k) * ?x < 2 ^ 32" by simp
  then have "take_bit 32 (push_bit (7 * k) ?x) = push_bit (7 * k) ?x"
    by (simp add: push_bit_eq_mult take_bit_nat_eq_self mult.commute)
  then have "unat (push_bit (7 * k) (ucast (d AND 127)) :: u32) = push_bit (7 * k) ?x"
    using unsigned_push_bit_eq [of "7 * k" "ucast (d AND 127) :: u32", where 'a = nat] u
    by simp
  then show ?thesis
    using or_push_bit_nat [OF assms(2)] by (simp add: unsigned_or_eq)
qed

lemma and_128_zero: "(d AND 128 :: byte) = 0 \<longleftrightarrow> unat d < 128"
proof -
  have odd: "odd (n div 128) \<longleftrightarrow> \<not> n < 128" if "n < 256" for n :: nat
  proof (cases "n < 128")
    case False
    with that have "n div 128 = 1" by (intro div_nat_eqI) auto
    with False show ?thesis by simp
  qed simp
  have "odd (unat d div 128) \<longleftrightarrow> \<not> unat d < 128" by (rule odd [OF unat_byte])
  moreover have "bit (unat d) 7 \<longleftrightarrow> odd (unat d div 2 ^ 7)" by (rule bit_iff_odd)
  moreover have "bit (unat d) 7 = bit d 7" by (simp add: bit_unsigned_iff)
  ultimately have "bit d 7 \<longleftrightarrow> \<not> unat d < 128" by simp
  then show ?thesis using and_exp_eq_0_iff_not_bit [of d 7] by simp
qed

text \<open>One byte of a length: its seven bits go behind the groups read before.\<close>

lemma decodeLength_loop_byte:
  assumes "k \<le> 3" and "off < length data" and "unat r < 2 ^ (7 * k)"
  obtains r' where "unat r' = unat r + 2 ^ (7 * k) * (unat (data ! off) mod 128)"
    and "unat r' < 2 ^ (7 * Suc k)"
    and "decodeLength_loop data r (of_nat (7 * k)) off =
      (if unat (data ! off) < 128 then (int (unat r'), Suc off, True)
       else decodeLength_loop data r' (of_nat (7 * Suc k)) (Suc off))"
proof -
  have m: "unat (of_nat (7 * k) :: u32) = 7 * k"
    using assms(1) unat_of_nat [of "7 * k", where 'a = 32] by simp
  then have lt: "(of_nat (7 * k) :: u32) < 27" using assms(1) by (simp add: word_less_nat_alt)
  have nxt: "(of_nat (7 * k) :: u32) + 7 = of_nat (7 * Suc k)" by simp
  let ?d = "data ! off"
  let ?r = "r OR push_bit (7 * k) (ucast (?d AND 127)) :: u32"
  have r': "unat ?r = unat r + 2 ^ (7 * k) * (unat ?d mod 128)"
    by (rule or_group_unat [OF assms(1,3)])
  have "2 ^ (7 * k) * (unat ?d mod 128) \<le> 2 ^ (7 * k) * 127" by simp
  then have "unat ?r < 2 ^ (7 * k) + 2 ^ (7 * k) * 127" using r' assms(3) by linarith
  then have bound: "unat ?r < 2 ^ (7 * Suc k)" by (simp add: power_add)
  show thesis
    by (rule that [OF r' bound], subst decodeLength_loop.simps)
      (use lt assms(2) m nxt in \<open>simp add: Let_def and_128_zero add.commute del: of_nat_mult of_nat_Suc\<close>)
qed

lemma decodeLength_loop_value:
  assumes "k \<le> 4" and "unat r < 2 ^ (7 * k)"
  shows "decodeLength_loop data r (of_nat (7 * k)) off =
    (case varint_value (4 - k) (drop off data) of None \<Rightarrow> (0, 0, False)
     | Some (v, j) \<Rightarrow> (int (unat r + 2 ^ (7 * k) * v), off + j, True))"
  using assms
proof (induction "4 - k" arbitrary: k r off)
  case 0
  then have "k = 4" by simp
  then show ?case by (subst decodeLength_loop.simps) simp
next
  case (Suc f)
  then have k: "k \<le> 3" and f: "f = 4 - Suc k" by auto
  show ?case
  proof (cases "off < length data")
    case False
    have "(of_nat (7 * k) :: u32) < 27"
      using k unat_of_nat [of "7 * k", where 'a = 32] by (simp add: word_less_nat_alt)
    with False Suc.hyps(2) [symmetric] show ?thesis
      by (subst decodeLength_loop.simps) simp
  next
    case True
    let ?d = "data ! off"
    obtain r' where r': "unat r' = unat r + 2 ^ (7 * k) * (unat ?d mod 128)" "unat r' < 2 ^ (7 * Suc k)"
      and loop: "decodeLength_loop data r (of_nat (7 * k)) off =
        (if unat ?d < 128 then (int (unat r'), Suc off, True)
         else decodeLength_loop data r' (of_nat (7 * Suc k)) (Suc off))"
      by (rule decodeLength_loop_byte [OF k True Suc.prems(2)])
    have drop: "drop off data = ?d # drop (Suc off) data"
      using True by (simp add: Cons_nth_drop_Suc)
    have IH: "decodeLength_loop data r' (of_nat (7 * Suc k)) (Suc off) =
        (case varint_value (4 - Suc k) (drop (Suc off) data) of None \<Rightarrow> (0, 0, False)
         | Some (v, j) \<Rightarrow> (int (unat r' + 2 ^ (7 * Suc k) * v), Suc off + j, True))"
      by (rule Suc.hyps(1)) (use f k r'(2) in auto)
    have "unat ?d mod 128 = unat ?d - 128" if "\<not> unat ?d < 128"
      using that unat_byte [of ?d] by (simp add: le_mod_geq)
    moreover have "unat r' + 2 ^ (7 * Suc k) * v = unat r + 2 ^ (7 * k) * (unat ?d mod 128 + 128 * v)" for v
      by (simp add: r'(1) power_add distrib_left)
    ultimately have "unat r' + 2 ^ (7 * Suc k) * v = unat r + 2 ^ (7 * k) * (unat ?d - 128 + 128 * v)"
      if "\<not> unat ?d < 128" for v using that by metis
    then show ?thesis
      unfolding loop IH using r'(1) drop Suc.hyps(2) [symmetric] f
      by (auto simp del: of_nat_unat of_nat_add of_nat_mult split: option.splits)
  qed
qed

lemma decodeLength_varint:
  "decodeLength data = (case varint_value 4 data of None \<Rightarrow> (0, 0, False)
     | Some (v, j) \<Rightarrow> (int v, j, True))"
  using decodeLength_loop_value [of 0 0 data 0]
  by (simp add: decodeLength_def split: option.splits)

lemma varint_value_bytes:
  assumes "n < 128 ^ fuel" and "0 < fuel"
  shows "varint_value fuel (varint_bytes n @ rest) = Some (n, length (varint_bytes n))"
  using assms
proof (induction fuel arbitrary: n)
  case 0
  then show ?case by simp
next
  case (Suc f)
  show ?case
  proof (cases "n < 128")
    case True
    then show ?thesis by (simp add: varint_bytes.simps [of n] unat_of_nat)
  next
    case False
    then have "0 < f" using Suc.prems by (cases f) auto
    moreover have "n div 128 < 128 ^ f"
      using Suc.prems by (simp add: less_mult_imp_div_less mult.commute)
    ultimately have IH: "varint_value f (varint_bytes (n div 128) @ rest)
        = Some (n div 128, length (varint_bytes (n div 128)))"
      by (rule Suc.IH [rotated])
    have "unat (of_nat (n mod 128 + 128) :: byte) = n mod 128 + 128"
      using unat_of_nat [of "n mod 128 + 128", where 'a = 8]
      by (simp add: mod_less)
    with IH False show ?thesis by (simp add: varint_bytes.simps [of n])
  qed
qed

lemma varint_value_bound:
  "varint_value fuel data = Some (v, j) \<Longrightarrow>
     v < 128 ^ fuel \<and> j \<le> fuel \<and> j \<le> length data \<and> (0 < fuel \<longrightarrow> 0 < j)"
proof (induction fuel data arbitrary: v j rule: varint_value.induct)
  case (3 fuel d ds)
  show ?case
  proof (cases "unat d < 128")
    case True
    have "(1 :: nat) \<le> 128 ^ fuel" by simp
    then have "unat d < 128 * 128 ^ fuel" using True by linarith
    with True show ?thesis using "3.prems" by auto
  next
    case False
    with "3.prems" obtain v' j' where r: "varint_value fuel ds = Some (v', j')"
      and vj: "v = unat d - 128 + 128 * v'" "j = Suc j'"
      by (auto split: option.splits)
    from "3.IH" [OF False r] have IH: "v' < 128 ^ fuel" "j' \<le> fuel" "j' \<le> length ds" by auto
    then have "128 * v' + 128 \<le> 128 * 128 ^ fuel" by (metis Suc_leI mult_Suc_right mult_le_mono2 add.commute)
    then have "v < 128 * 128 ^ fuel" using vj unat_byte [of d] by linarith
    with IH vj show ?thesis by simp
  qed
qed auto

lemma varint_value_append:
  "varint_value fuel data = Some (v, j) \<Longrightarrow> varint_value fuel (data @ xs) = Some (v, j)"
  by (induction fuel data arbitrary: v j rule: varint_value.induct) (auto split: option.splits if_splits)

lemma varint_value_take:
  "varint_value fuel data = Some (v, j) \<Longrightarrow> varint_value fuel (take j data) = Some (v, j)"
  by (induction fuel data arbitrary: v j rule: varint_value.induct) (auto split: option.splits if_splits)

section \<open>Frames as a specification\<close>

text \<open>
  The length of the first complete frame of a buffer, \<open>None\<close> when the buffer holds none, and
  the cutting of a buffer into its complete frames and the unfinished rest.
\<close>

definition frame_len :: "frame_codes \<Rightarrow> bytes \<Rightarrow> nat option" where
  "frame_len K bs =
     (case bs of [] \<Rightarrow> None
      | b # rest \<Rightarrow>
          if drop_bit 4 b = PING K \<or> drop_bit 4 b = PONG K then Some 1
          else (case varint_value 4 rest of None \<Rightarrow> None
                | Some (v, k) \<Rightarrow> if 1 + k + v \<le> length bs then Some (1 + k + v) else None))"

definition is_frame :: "frame_codes \<Rightarrow> bytes \<Rightarrow> bool" where
  "is_frame K f \<longleftrightarrow> frame_len K f = Some (length f)"

lemma frame_len_bounds: "frame_len K bs = Some n \<Longrightarrow> 0 < n \<and> n \<le> length bs"
  by (auto simp: frame_len_def split: list.splits if_splits option.splits)

lemma is_frame_nonempty: "is_frame K f \<Longrightarrow> f \<noteq> []"
  using frame_len_bounds by (auto simp: is_frame_def)

function frames :: "frame_codes \<Rightarrow> bytes \<Rightarrow> bytes list \<times> bytes" where
  "frames K bs =
     (case frame_len K bs of None \<Rightarrow> ([], bs)
      | Some n \<Rightarrow> (case frames K (drop n bs) of (fs, rest) \<Rightarrow> (take n bs # fs, rest)))"
  by pat_completeness auto
termination
  by (relation "measure (\<lambda>(K, bs). length bs)") (auto dest: frame_len_bounds)

declare frames.simps [simp del]

lemma frame_len_append: "frame_len K bs = Some n \<Longrightarrow> frame_len K (bs @ xs) = Some n"
  by (auto simp: frame_len_def varint_value_append split: list.splits if_splits option.splits)

lemma frame_len_take:
  assumes "frame_len K bs = Some n"
  shows "frame_len K (take n bs) = Some n"
proof -
  obtain b rest where bs: "bs = b # rest"
    using assms by (auto simp: frame_len_def split: list.splits)
  show ?thesis
  proof (cases "drop_bit 4 b = PING K \<or> drop_bit 4 b = PONG K")
    case True
    with assms bs show ?thesis by (auto simp: frame_len_def)
  next
    case False
    with assms bs obtain v k where r: "varint_value 4 rest = Some (v, k)"
      and n: "n = 1 + k + v" "n \<le> length bs"
      by (auto simp: frame_len_def split: option.splits if_splits)
    have "varint_value 4 (take k rest @ take v (drop k rest)) = Some (v, k)"
      by (rule varint_value_append [OF varint_value_take [OF r]])
    then have "varint_value 4 (take (k + v) rest) = Some (v, k)" by (simp add: take_add)
    with False bs n show ?thesis by (simp add: frame_len_def)
  qed
qed

lemma is_frame_take: "frame_len K bs = Some n \<Longrightarrow> is_frame K (take n bs)"
  using frame_len_bounds [of K bs n] by (simp add: is_frame_def frame_len_take)

lemma frames_sound:
  "frames K bs = (fs, rest) \<Longrightarrow>
     concat fs @ rest = bs \<and> (\<forall>f \<in> set fs. is_frame K f) \<and> frame_len K rest = None"
proof (induction K bs arbitrary: fs rest rule: frames.induct)
  case (1 K bs)
  show ?case
  proof (cases "frame_len K bs")
    case None
    with "1.prems" show ?thesis by (simp add: frames.simps [of K bs])
  next
    case (Some n)
    obtain fs' where r: "frames K (drop n bs) = (fs', rest)" and fs: "fs = take n bs # fs'"
      using "1.prems" Some by (auto simp: frames.simps [of K bs] split: prod.splits)
    show ?thesis using "1.IH" [OF Some r] fs is_frame_take [OF Some] by auto
  qed
qed

lemma frames_complete:
  assumes "\<forall>f \<in> set fs. is_frame K f" and "frame_len K rest = None"
  shows "frames K (concat fs @ rest) = (fs, rest)"
  using assms(1)
proof (induction fs)
  case Nil
  with assms(2) show ?case by (simp add: frames.simps)
next
  case (Cons f fs)
  then have "frame_len K (f @ concat fs @ rest) = Some (length f)"
    by (intro frame_len_append) (simp add: is_frame_def)
  with Cons show ?case by (simp add: frames.simps [of K "f @ concat fs @ rest"])
qed

text \<open>Cutting a buffer early and going on with what is left gives the same frames.\<close>

lemma frames_append:
  assumes "frames K a = (fs, r)" and "frames K (r @ b) = (gs, s)"
  shows "frames K (a @ b) = (fs @ gs, s)"
proof -
  have "concat fs @ r = a" "concat gs @ s = r @ b"
    using frames_sound [OF assms(1)] frames_sound [OF assms(2)] by auto
  then have ab: "a @ b = concat (fs @ gs) @ s" by (metis append_assoc concat_append)
  have "frames K (concat (fs @ gs) @ s) = (fs @ gs, s)"
    by (rule frames_complete)
      (use frames_sound [OF assms(1)] frames_sound [OF assms(2)] in auto)
  with ab show ?thesis by simp
qed

text \<open>What a well-formed packet looks like on the wire.\<close>

lemma is_frame_packet:
  assumes "drop_bit 4 h \<noteq> PING K" and "drop_bit 4 h \<noteq> PONG K" and "length body < 2 ^ 28"
  shows "is_frame K (h # varint_bytes (length body) @ body)"
  using assms varint_value_bytes [of "length body" 4 body]
  by (simp add: is_frame_def frame_len_def)

lemma is_frame_ping: "drop_bit 4 h = PING K \<or> drop_bit 4 h = PONG K \<Longrightarrow> is_frame K [h]"
  by (auto simp: is_frame_def frame_len_def)

section \<open>The splitters cut at the frames\<close>

lemma frame_len_code:
  assumes "bs \<noteq> []" and "drop_bit 4 (bs ! 0) \<noteq> PING K" and "drop_bit 4 (bs ! 0) \<noteq> PONG K"
  shows "frame_len K bs =
    (case decodeLength (drop 1 bs) of (n, k, has) \<Rightarrow>
       if has \<and> k + nat n + 1 \<le> length bs then Some (k + nat n + 1) else None)"
  using assms by (cases bs) (auto simp: frame_len_def decodeLength_varint split: option.splits)

text \<open>A round of the splitter moves one frame, or stops when there is no whole one.\<close>

lemma parse_loop_round:
  "parse_loop K buff offset packetData =
     (case frame_len K (drop offset buff) of
        None \<Rightarrow> (offset, packetData)
      | Some n \<Rightarrow> parse_loop K buff (offset + n) (packetData @ take n (drop offset buff)))"
proof -
  let ?d = "drop offset buff"
  note eq = parse_loop.simps [of K buff offset packetData]
  show ?thesis
  proof (cases "offset < length buff")
    case False
    then show ?thesis by (subst eq) (simp add: frame_len_def)
  next
    case off: True
    then have d: "?d \<noteq> []" "?d ! 0 = buff ! offset" by auto
    show ?thesis
    proof (cases "drop_bit 4 (buff ! offset) = PING K \<or> drop_bit 4 (buff ! offset) = PONG K")
      case True
      then have "frame_len K ?d = Some 1" and "take 1 ?d = [buff ! offset]"
        using off by (simp_all add: frame_len_def Cons_nth_drop_Suc [symmetric])
      with off True show ?thesis by (subst eq) simp
    next
      case False
      obtain n k has where dl: "decodeLength (drop (Suc offset) buff) = (n, k, has)"
        by (cases "decodeLength (drop (Suc offset) buff)") auto
      have "k + nat n + 1 \<le> length ?d \<longleftrightarrow> offset + k + nat n + 1 \<le> length buff" using off by auto
      with frame_len_code [of ?d K] d False off dl show ?thesis
        by (subst eq) (simp add: Let_def ac_simps)
    qed
  qed
qed

lemma parse_loop_frames:
  "offset \<le> length buff \<Longrightarrow> frames K (drop offset buff) = (fs, rest) \<Longrightarrow>
     parse_loop K buff offset packetData
       = (offset + length (concat fs), packetData @ concat fs)"
proof (induction K "drop offset buff" arbitrary: offset packetData fs rule: frames.induct)
  case (1 K)
  let ?d = "drop offset buff"
  note eq = parse_loop_round [of K buff offset packetData]
  show ?case
  proof (cases "frame_len K ?d")
    case None
    then have "fs = []" using "1.prems"(2) by (simp add: frames.simps [of K ?d])
    with None show ?thesis by (subst eq) simp
  next
    case (Some n)
    have n: "offset + n \<le> length buff" using frame_len_bounds [OF Some] "1.prems"(1) by auto
    from Some "1.prems"(2) obtain fs' where r: "frames K (drop (offset + n) buff) = (fs', rest)"
      and fs: "fs = take n ?d # fs'"
      by (auto simp: frames.simps [of K ?d] ac_simps split: prod.splits)
    have "length (take n ?d) = n" using n by simp
    with "1.hyps" [OF Some _ n r] Some fs show ?thesis by (subst eq) (simp add: ac_simps)
  qed
qed

lemma gnetUnpacket_loop_frames:
  "offset \<le> length buff \<Longrightarrow>
     gnetUnpacket_loop K buff offset = fst (parse_loop K buff offset packetData)"
proof (induction K buff offset packetData rule: parse_loop.induct)
  case (1 K buff offset packetData)
  note eqs = parse_loop.simps [of K buff offset packetData]
    gnetUnpacket_loop.simps [of K buff offset]
  obtain n k has where dl: "decodeLength (drop (Suc offset) buff) = (n, k, has)"
    by (cases "decodeLength (drop (Suc offset) buff)") auto
  show ?case
    using "1.IH"(1) [OF _ refl refl] "1.IH"(2) [OF _ refl refl _ dl [symmetric] refl] dl
    by (simp add: eqs Let_def)
qed

lemma parse_frames:
  assumes "buff \<noteq> []" and "frames K buff = (fs, rest)"
  shows "parse K buff = (if fs = [] then None else Some (concat fs), Some rest, None)"
proof -
  have "parse_loop K buff 0 [] = (length (concat fs), concat fs)"
    using parse_loop_frames [of 0 buff K fs rest "[]"] assms(2) by simp
  moreover have "concat fs @ rest = buff" and "\<forall>f \<in> set fs. 0 < length f"
    using frames_sound [OF assms(2)] frame_len_bounds by (auto simp: is_frame_def)
  moreover have "concat fs \<noteq> [] \<longleftrightarrow> fs \<noteq> []"
    using calculation(3) by (cases fs) auto
  moreover have "drop (length (concat fs)) buff = rest"
    using calculation(2) by (metis append_eq_conv_conj)
  ultimately show ?thesis using assms(1) by (auto simp: parse_def)
qed

lemma read_chunk_frames:
  assumes "c \<noteq> []" and "frames K (tmpBuff @ c) = (fs, rest)"
  shows "read_chunk K tmpBuff c = (concat fs, rest)"
  using parse_frames [OF _ assms(2)] assms(1) by (simp add: read_chunk_def)

lemma read_chunks_frames:
  "frame_len K tmpBuff = None \<Longrightarrow> read_chunks K tmpBuff cs = (pds, left) \<Longrightarrow>
     \<exists>fss. pds = map concat fss \<and> frames K (tmpBuff @ concat cs) = (concat fss, left)"
proof (induction cs arbitrary: tmpBuff pds left)
  case Nil
  then show ?case by (auto simp: frames.simps [of K left])
next
  case (Cons c cs)
  show ?case
  proof (cases "c = []")
    case True
    with Cons show ?thesis by simp
  next
    case False
    obtain fs rest where f: "frames K (tmpBuff @ c) = (fs, rest)" by fastforce
    obtain pds' where r: "read_chunks K rest cs = (pds', left)" and pds: "pds = concat fs # pds'"
      using Cons.prems(2) False read_chunk_frames [OF False f] by (auto split: prod.splits)
    obtain fss where fss: "pds' = map concat fss" "frames K (rest @ concat cs) = (concat fss, left)"
      using Cons.IH [OF _ r] frames_sound [OF f] by auto
    show ?thesis
      using pds fss frames_append [OF f fss(2)] by (intro exI [of _ "fs # fss"]) simp
  qed
qed

text \<open>Every read hands on whole frames, however the stream was cut.\<close>

lemma read_chunks_start:
  assumes "read_chunks K [] cs = (pds, left)"
  obtains fss where "pds = map concat fss" and "frames K (concat cs) = (concat fss, left)"
  using read_chunks_frames [OF _ assms] by (auto simp: frame_len_def)

section \<open>Properties\<close>

text \<open>
  C1. Reassembly of the packet stream. However the network cuts a stream of packets (and an
  unfinished tail \<open>p\<close>) into reads, the packet data that \<^verbatim>\<open>readLoop\<close> hands to the packet
  handler is, over all reads, exactly those packets in order: nothing is lost, duplicated or
  reordered, each read hands on whole packets only, and \<open>tmpBuff\<close> ends as the unfinished tail.
\<close>

theorem stream_reassembly:
  assumes "\<forall>f \<in> set fs. is_frame K f" and "frame_len K p = None" and "concat cs = concat fs @ p"
  shows "\<exists>fss. read_chunks K [] cs = (map concat fss, p) \<and> concat fss = fs"
proof -
  obtain pds left where r: "read_chunks K [] cs = (pds, left)" by fastforce
  obtain fss where fss: "pds = map concat fss" "frames K (concat cs) = (concat fss, left)"
    by (rule read_chunks_start [OF r])
  with frames_complete [OF assms(1,2)] assms(3) r show ?thesis by auto
qed

theorem stream_reassembly_witness:
  "\<exists>fss. read_chunks \<lparr>PING = 7, PONG = 8\<rparr> [] [[0x30], [2, 5], [], [6, 0x70, 0x30]] =
       (map concat fss, [0x30]) \<and> concat fss = [[0x30, 2, 5, 6], [0x70]]"
proof -
  have "\<forall>f \<in> set [[0x30, 2, 5, 6], [0x70]]. is_frame \<lparr>PING = 7, PONG = 8\<rparr> f"
    and "frame_len \<lparr>PING = 7, PONG = 8\<rparr> [0x30] = None"
    by code_simp+
  then show ?thesis by (rule stream_reassembly) simp
qed

text \<open>
  C26. The two splitters agree: \<^verbatim>\<open>parse\<close>, which copies packet by packet, returns the same packet
  data and remaining data as \<^verbatim>\<open>gnetUnpacket\<close>, which only moves an offset, on every buffer.
\<close>

theorem parse_eq_gnetUnpacket: "parse K buff = gnetUnpacket K buff"
proof (cases "buff = []")
  case True
  then show ?thesis by (simp add: parse_def gnetUnpacket_def)
next
  case False
  obtain fs rest where f: "frames K buff = (fs, rest)" by fastforce
  have "parse_loop K buff 0 [] = (length (concat fs), concat fs)"
    using parse_loop_frames [of 0 buff K fs rest "[]"] f by simp
  then have "gnetUnpacket_loop K buff 0 = length (concat fs)"
    using gnetUnpacket_loop_frames [of 0 buff K "[]"] by simp
  moreover have "buff = concat fs @ rest" and "concat fs = [] \<longleftrightarrow> fs = []"
    using frames_sound [OF f] is_frame_nonempty by (auto, metis list.set_intros(1) list.exhaust)
  ultimately show ?thesis
    using False parse_frames [OF False f] by (simp add: gnetUnpacket_def)
qed

text \<open>
  C27. The remaining-length field round-trips: every length below \<open>2 ^ 28\<close>, written in groups of
  seven bits, is read back by \<^verbatim>\<open>decodeLength\<close> with the number of bytes it took, whatever follows.
\<close>

theorem decodeLength_roundtrip:
  assumes "n < 2 ^ 28"
  shows "decodeLength (varint_bytes n @ rest) = (int n, length (varint_bytes n), True)"
  using varint_value_bytes [of n 4 rest] assms by (simp add: decodeLength_varint)

theorem decodeLength_roundtrip_witness:
  "decodeLength (varint_bytes 300 @ [7]) = (300, length (varint_bytes 300), True)"
  using decodeLength_roundtrip [of 300 "[7]"] by simp

text \<open>
  \<^verbatim>\<open>decodeLength\<close> is bounded and never reads past the buffer: it consumes between one and four
  bytes, all of them in the buffer, the value fits 28 bits (so the 32-bit accumulator never wraps),
  and it reports missing data exactly when fewer than four bytes are there and all of them have
  the continuation bit.
\<close>

theorem decodeLength_bounds:
  "case decodeLength data of (n, k, has) \<Rightarrow>
     0 \<le> n \<and> n < 2 ^ 28 \<and> k \<le> 4 \<and> k \<le> length data \<and> (0 < k \<longleftrightarrow> has) \<and>
     (\<not> has \<longleftrightarrow> length data < 4 \<and> list_all (\<lambda>d. 128 \<le> unat d) data)"
proof -
  have none: "varint_value fuel data = None \<longleftrightarrow> length data < fuel \<and> list_all (\<lambda>d. 128 \<le> unat d) data"
    for fuel
    by (induction fuel data rule: varint_value.induct) (auto split: option.splits)
  show ?thesis
    using varint_value_bound [of 4 data] none [of 4]
    by (auto simp: decodeLength_varint split: option.splits)
qed

end
