(* ===== verification/Lim_Buffer.thy ===== *)
theory Lim_Buffer
  imports Prelude "HOL-Library.Sublist"
begin

text \<open>
  Buffered writing and reading: \<^verbatim>\<open>pkg/client/buffer.go\<close>.

  The operations of \<^verbatim>\<open>limWriter\<close> and \<^verbatim>\<open>limReader\<close> take the write and read operation of the
  stream below them as an argument. What they rely on is the contract of \<^verbatim>\<open>io.Writer\<close> and
  \<^verbatim>\<open>io.Reader\<close>, stated as the locales \<open>byte_sink\<close> and \<open>byte_source\<close>; both are interpreted on
  the connection and on \<^verbatim>\<open>timeoutWriter\<close>.
\<close>

section \<open>Connections\<close>

text \<open>
  A \<^verbatim>\<open>net.Conn\<close>: \<open>c_wire\<close> is what has been handed to the network. What the environment does is
  scripted: \<open>c_faults\<close> says of each coming write whether it goes through (\<open>None\<close>, also when the
  script has ended) or fails after some bytes, \<open>c_inbox\<close> holds what the coming reads find.
\<close>

record conn =
  c_wire :: bytes
  c_faults :: "nat option list"
  c_inbox :: "(bytes \<times> go_error option) list"
  c_closed :: bool

type_synonym write_result = "nat \<times> go_error option"
type_synonym read_result = "bytes \<times> go_error option"

definition conn_write :: "conn \<Rightarrow> bytes \<Rightarrow> conn \<times> write_result" where
  "conn_write c p =
     (if c_closed c then (c, 0, Some Err_Use_Of_Closed_Conn)
      else case c_faults c of
        [] \<Rightarrow> (c\<lparr>c_wire := c_wire c @ p\<rparr>, length p, None)
      | None # fs \<Rightarrow> (c\<lparr>c_wire := c_wire c @ p, c_faults := fs\<rparr>, length p, None)
      | Some k # fs \<Rightarrow>
          (c\<lparr>c_wire := c_wire c @ take k p, c_faults := fs\<rparr>, min k (length p),
           Some (Err_External 0)))"

definition conn_read :: "conn \<Rightarrow> nat \<Rightarrow> conn \<times> read_result" where
  "conn_read c n =
     (if c_closed c then (c, [], Some Err_Use_Of_Closed_Conn)
      else case c_inbox c of
        [] \<Rightarrow> (c, [], Some Err_EOF)
      | (data, e) # rest \<Rightarrow>
          if length data \<le> n then (c\<lparr>c_inbox := rest\<rparr>, data, e)
          else (c\<lparr>c_inbox := (drop n data, e) # rest\<rparr>, take n data, None))"

definition conn_close :: "conn \<Rightarrow> conn" where
  "conn_close c = c\<lparr>c_closed := True\<rparr>"

text \<open>What a connection can still deliver to its reader.\<close>

definition incoming :: "conn \<Rightarrow> bytes" where
  "incoming c = (if c_closed c then [] else concat (map fst (c_inbox c)))"

section \<open>timeoutWriter\<close>

text \<open>The deadline itself is a property of the clock and has no counterpart in the model; that a
  write can fail because of it is one of the scripted faults.\<close>

record timeoutWriter =
  tw_timeout :: int
  tw_conn :: conn
  tw_err :: "go_error option"

definition tw_Write :: "timeoutWriter \<Rightarrow> bytes \<Rightarrow> timeoutWriter \<times> write_result" where
  "tw_Write tw p =
     (case tw_err tw of
        Some e \<Rightarrow> (tw, 0, Some e)
      | None \<Rightarrow> (case conn_write (tw_conn tw) p of (c, n, e) \<Rightarrow>
                   (tw\<lparr>tw_conn := c, tw_err := e\<rparr>, n, e)))"

text \<open>The two writers that \<^verbatim>\<open>newWriter\<close> of \<^verbatim>\<open>client.go\<close> chooses from.\<close>

datatype io_writer = Conn_Writer conn | Timeout_Writer timeoutWriter

fun io_Write :: "io_writer \<Rightarrow> bytes \<Rightarrow> io_writer \<times> write_result" where
  "io_Write (Conn_Writer c) p = (case conn_write c p of (c', r) \<Rightarrow> (Conn_Writer c', r))"
| "io_Write (Timeout_Writer tw) p = (case tw_Write tw p of (tw', r) \<Rightarrow> (Timeout_Writer tw', r))"

definition newWriter :: "int \<Rightarrow> conn \<Rightarrow> io_writer" where
  "newWriter FlusherTimeout c =
     (if 0 < FlusherTimeout
      then Timeout_Writer \<lparr>tw_timeout = FlusherTimeout, tw_conn = c, tw_err = None\<rparr>
      else Conn_Writer c)"

fun io_conn :: "io_writer \<Rightarrow> conn" where
  "io_conn (Conn_Writer c) = c"
| "io_conn (Timeout_Writer tw) = tw_conn tw"

section \<open>limWriter\<close>

text \<open>\<open>lw_pending\<close> is \<open>None\<close> for a nil buffer; \<open>lw_w\<close> is nil until the first connection.\<close>

record 'w limWriter =
  lw_w :: "'w option"
  lw_bufs :: bytes
  lw_limit :: int
  lw_pending :: "bytes option"
  lw_plimit :: int

type_synonym 'w write_op = "'w \<Rightarrow> bytes \<Rightarrow> 'w \<times> write_result"

definition lw_flush ::
    "'w write_op \<Rightarrow> 'w limWriter \<Rightarrow> ('w limWriter \<times> go_error option) go" where
  "lw_flush wr lw =
     (if lw_pending lw \<noteq> None then Inr (lw, None)
      else case lw_w lw of
        None \<Rightarrow> Inl Nil_Dereference
      | Some w \<Rightarrow> (case wr w (lw_bufs lw) of (w', n, e) \<Rightarrow>
                     Inr (lw\<lparr>lw_w := Some w', lw_bufs := []\<rparr>, e)))"

definition lw_append1 :: "'w limWriter \<Rightarrow> bytes \<Rightarrow> 'w limWriter" where
  "lw_append1 lw buf =
     (if length buf = 0 then lw
      else case lw_pending lw of
        Some p \<Rightarrow> lw\<lparr>lw_pending := Some (p @ buf)\<rparr>
      | None \<Rightarrow> lw\<lparr>lw_bufs := lw_bufs lw @ buf\<rparr>)"

definition lw_appendBufs ::
    "'w write_op \<Rightarrow> 'w limWriter \<Rightarrow> bytes list \<Rightarrow> ('w limWriter \<times> go_error option) go" where
  "lw_appendBufs wr lw bufs =
     (let lw' = foldl lw_append1 lw bufs
      in if lw_pending lw' = None \<and> lw_limit lw' \<le> int (length (lw_bufs lw'))
         then lw_flush wr lw'
         else Inr (lw', None))"

definition lw_appendString ::
    "'w write_op \<Rightarrow> 'w limWriter \<Rightarrow> string \<Rightarrow> ('w limWriter \<times> go_error option) go" where
  "lw_appendString wr lw str = lw_appendBufs wr lw [map of_char str]"

definition lw_writeDirect ::
    "'w write_op \<Rightarrow> 'w limWriter \<Rightarrow> bytes \<Rightarrow> ('w limWriter \<times> go_error option) go" where
  "lw_writeDirect wr lw data =
     (case lw_w lw of
        None \<Rightarrow> Inl Nil_Dereference
      | Some w \<Rightarrow> (case wr w data of (w', n, e) \<Rightarrow> Inr (lw\<lparr>lw_w := Some w'\<rparr>, e)))"

definition lw_buffered :: "'w limWriter \<Rightarrow> nat" where
  "lw_buffered lw =
     (case lw_pending lw of Some p \<Rightarrow> length p | None \<Rightarrow> length (lw_bufs lw))"

definition lw_switchToPending :: "'w limWriter \<Rightarrow> 'w limWriter" where
  "lw_switchToPending lw = lw\<lparr>lw_pending := Some []\<rparr>"

definition lw_flushPendingBuffer ::
    "'w write_op \<Rightarrow> 'w limWriter \<Rightarrow> ('w limWriter \<times> go_error option) go" where
  "lw_flushPendingBuffer wr lw =
     (case lw_pending lw of
        None \<Rightarrow> Inr (lw, None)
      | Some p \<Rightarrow>
          if length p = 0 then Inr (lw, None)
          else case lw_w lw of
            None \<Rightarrow> Inl Nil_Dereference
          | Some w \<Rightarrow> (case wr w p of (w', n, e) \<Rightarrow>
                         Inr (lw\<lparr>lw_w := Some w', lw_pending := Some []\<rparr>, e)))"

definition lw_atLimitIfUsingPending :: "'w limWriter \<Rightarrow> bool" where
  "lw_atLimitIfUsingPending lw =
     (case lw_pending lw of None \<Rightarrow> False | Some p \<Rightarrow> lw_plimit lw \<le> int (length p))"

definition lw_doneWithPending :: "'w limWriter \<Rightarrow> 'w limWriter" where
  "lw_doneWithPending lw = lw\<lparr>lw_pending := None\<rparr>"

text \<open>The writer's half of \<^verbatim>\<open>bindToNewConn\<close> of \<^verbatim>\<open>client.go\<close>: a new stream, an empty buffer.\<close>

definition lw_bind :: "'w \<Rightarrow> 'w limWriter \<Rightarrow> 'w limWriter" where
  "lw_bind w lw = lw\<lparr>lw_w := Some w, lw_bufs := []\<rparr>"

section \<open>limReader\<close>

record 'r limReader =
  lr_r :: 'r
  lr_buf :: bytes
  lr_off :: int
  lr_n :: nat

type_synonym 'r read_op = "'r \<Rightarrow> nat \<Rightarrow> 'r \<times> read_result"

text \<open>A read overwrites the front of the fixed buffer.\<close>

definition lr_Read :: "'r read_op \<Rightarrow> 'r limReader \<Rightarrow> ('r limReader \<times> read_result) go" where
  "lr_Read rd r =
     (if 0 \<le> lr_off r
      then (if lr_off r \<le> int (lr_n r) \<and> lr_n r \<le> length (lr_buf r)
            then Inr (r\<lparr>lr_off := - 1\<rparr>,
                      take (lr_n r - nat (lr_off r)) (drop (nat (lr_off r)) (lr_buf r)), None)
            else Inl Slice_Bounds)
      else case rd (lr_r r) (length (lr_buf r)) of (src, data, e) \<Rightarrow>
             Inr (r\<lparr>lr_r := src, lr_buf := data @ drop (length data) (lr_buf r),
                    lr_n := length data\<rparr>, data, e))"

definition lr_window :: "'r limReader \<Rightarrow> bytes" where
  "lr_window r = take (lr_n r - nat (lr_off r)) (drop (nat (lr_off r)) (lr_buf r))"

text \<open>\<^verbatim>\<open>bytes.IndexByte\<close>.\<close>

fun index_byte :: "bytes \<Rightarrow> byte \<Rightarrow> nat option" where
  "index_byte [] d = None"
| "index_byte (b # bs) d = (if b = d then Some 0 else map_option Suc (index_byte bs d))"

text \<open>
  \<^verbatim>\<open>ReadString\<close> loops through its label \<^verbatim>\<open>build_string\<close>; every round but the last reads once.
  A stream that keeps returning nothing without an error makes it loop for ever, so the rounds
  are bounded by fuel, \<open>None\<close> meaning that they did not suffice.
\<close>

fun lr_ReadString ::
    "nat \<Rightarrow> 'r read_op \<Rightarrow> byte \<Rightarrow> bytes \<Rightarrow> 'r limReader
       \<Rightarrow> ('r limReader \<times> bytes \<times> go_error option) go option" where
  "lr_ReadString 0 rd delim s r = None"
| "lr_ReadString (Suc fuel) rd delim s r =
     (if 0 \<le> lr_off r \<and> int (lr_n r) < lr_off r then Some (Inl Slice_Bounds)
      else case (if 0 \<le> lr_off r then index_byte (lr_window r) delim else None) of
        Some i \<Rightarrow>
          (let end = lr_off r + int i + 1
           in Some (Inr (r\<lparr>lr_off := if int (lr_n r) \<le> end then - 1 else end\<rparr>,
                         s @ take (Suc i) (lr_window r), None)))
      | None \<Rightarrow>
          (let s' = (if 0 \<le> lr_off r then s @ lr_window r else s);
               r' = (if 0 \<le> lr_off r then r\<lparr>lr_off := - 1\<rparr> else r)
           in case lr_Read rd r' of
                Inl p \<Rightarrow> Some (Inl p)
              | Inr (r'', data, e) \<Rightarrow>
                  (case e of Some err \<Rightarrow> Some (Inr (r'', s', Some err))
                   | None \<Rightarrow> lr_ReadString fuel rd delim s' (r''\<lparr>lr_off := 0\<rparr>))))"

section \<open>The contract of a writer, and limWriter over it\<close>

text \<open>
  A run of the operations that \<^verbatim>\<open>SendMessage\<close>, \<^verbatim>\<open>sendPing\<close> and the flusher make on the writer:
  the errors they return, in order.
\<close>

datatype wop = W_Append "bytes list" | W_Flush

fun wop_bytes :: "wop \<Rightarrow> bytes" where
  "wop_bytes (W_Append bs) = concat bs"
| "wop_bytes W_Flush = []"

fun lw_step :: "'w write_op \<Rightarrow> 'w limWriter \<Rightarrow> wop \<Rightarrow> ('w limWriter \<times> go_error option) go" where
  "lw_step wr lw (W_Append bs) = lw_appendBufs wr lw bs"
| "lw_step wr lw W_Flush = lw_flush wr lw"

fun lw_run ::
    "'w write_op \<Rightarrow> 'w limWriter \<Rightarrow> wop list \<Rightarrow> ('w limWriter \<times> go_error option list) go" where
  "lw_run wr lw [] = Inr (lw, [])"
| "lw_run wr lw (x # xs) =
     go_bind (lw_step wr lw x) (\<lambda>(lw', e).
       go_bind (lw_run wr lw' xs) (\<lambda>(lw'', es). Inr (lw'', e # es)))"

lemma foldl_append1_online:
  "lw_pending lw = None \<Longrightarrow>
     foldl lw_append1 lw bs = lw\<lparr>lw_bufs := lw_bufs lw @ concat bs\<rparr>"
  by (induction bs arbitrary: lw) (auto simp: lw_append1_def)

lemma foldl_append1_pending:
  "lw_pending lw = Some p \<Longrightarrow>
     foldl lw_append1 lw bs = lw\<lparr>lw_pending := Some (p @ concat bs)\<rparr>"
  by (induction bs arbitrary: lw p) (auto simp: lw_append1_def)

lemma lw_step_pending:
  "lw_pending lw = Some p \<Longrightarrow>
     lw_step wr lw x = Inr (lw\<lparr>lw_pending := Some (p @ wop_bytes x)\<rparr>, None)"
  by (cases x) (simp_all add: lw_appendBufs_def lw_flush_def foldl_append1_pending)

lemma lw_run_pending:
  "lw_pending lw = Some p \<Longrightarrow>
     lw_run wr lw xs = Inr (lw\<lparr>lw_pending := Some (p @ concat (map wop_bytes xs))\<rparr>,
                            replicate (length xs) None)"
  by (induction xs arbitrary: lw p) (auto simp: lw_step_pending)

text \<open>Connected and not collecting for a reconnect.\<close>

definition lw_online :: "'w limWriter \<Rightarrow> 'w \<Rightarrow> bool" where
  "lw_online lw w \<longleftrightarrow> lw_pending lw = None \<and> lw_w lw = Some w"

locale byte_sink =
  fixes wr :: "'w write_op"
    and sent :: "'w \<Rightarrow> bytes"
  assumes write_sent: "wr w p = (w', n, e) \<Longrightarrow> sent w' = sent w @ take n p"
    and write_full: "wr w p = (w', n, None) \<Longrightarrow> n = length p"
begin

lemma flush_online:
  assumes "lw_online lw w"
  obtains w' n e where "lw_flush wr lw = Inr (lw\<lparr>lw_w := Some w', lw_bufs := []\<rparr>, e)"
    and "sent w' = sent w @ take n (lw_bufs lw)" and "e = None \<longrightarrow> n = length (lw_bufs lw)"
proof -
  obtain w' n e where r: "wr w (lw_bufs lw) = (w', n, e)" by (cases "wr w (lw_bufs lw)") auto
  with assms that show thesis
    using write_sent [OF r] write_full [of w "lw_bufs lw" w' n] by (auto simp: lw_flush_def lw_online_def)
qed

text \<open>One step: the stream grows by what was appended, or the step reports an error and a
  contiguous piece is gone.\<close>

lemma step_online:
  assumes "lw_online lw w"
  obtains lw' w' n e where "lw_step wr lw x = Inr (lw', e)" and "lw_online lw' w'"
    and "lw_limit lw' = lw_limit lw"
    and "sent w' @ lw_bufs lw' = sent w @ take n (lw_bufs lw @ wop_bytes x)"
    and "e = None \<longrightarrow> sent w' @ lw_bufs lw' = sent w @ lw_bufs lw @ wop_bytes x"
    and "0 < lw_limit lw \<and> int (length (lw_bufs lw)) < lw_limit lw \<longrightarrow>
           int (length (lw_bufs lw')) < lw_limit lw"
proof (cases x)
  case W_Flush
  obtain w' n e where f: "lw_flush wr lw = Inr (lw\<lparr>lw_w := Some w', lw_bufs := []\<rparr>, e)"
    "sent w' = sent w @ take n (lw_bufs lw)" "e = None \<longrightarrow> n = length (lw_bufs lw)"
    by (rule flush_online [OF assms])
  show thesis
    by (rule that [of "lw\<lparr>lw_w := Some w', lw_bufs := []\<rparr>" e w' n])
      (use f W_Flush assms in \<open>auto simp: lw_online_def\<close>)
next
  case (W_Append bs)
  let ?lw = "lw\<lparr>lw_bufs := lw_bufs lw @ concat bs\<rparr>"
  have app: "foldl lw_append1 lw bs = ?lw"
    using assms by (simp add: foldl_append1_online lw_online_def)
  have on: "lw_online ?lw w" using assms by (simp add: lw_online_def)
  show thesis
  proof (cases "lw_limit lw \<le> int (length (lw_bufs ?lw))")
    case True
    with W_Append app on have "lw_step wr lw x = lw_flush wr ?lw"
      by (simp add: lw_appendBufs_def lw_online_def)
    moreover obtain w' n e
      where f: "lw_flush wr ?lw = Inr (?lw\<lparr>lw_w := Some w', lw_bufs := []\<rparr>, e)"
        "sent w' = sent w @ take n (lw_bufs ?lw)" "e = None \<longrightarrow> n = length (lw_bufs ?lw)"
      by (rule flush_online [OF on])
    ultimately show thesis
      by (intro that [of "?lw\<lparr>lw_w := Some w', lw_bufs := []\<rparr>" e w' n])
        (use W_Append on in \<open>auto simp: lw_online_def\<close>)
  next
    case False
    with W_Append app on have "lw_step wr lw x = Inr (?lw, None)"
      by (simp add: lw_appendBufs_def lw_online_def)
    with False that [of ?lw None w "length (lw_bufs ?lw)"] W_Append on show thesis
      by (auto simp: lw_online_def)
  qed
qed

lemma run_online:
  assumes "lw_online lw w"
  obtains lw' w' es where "lw_run wr lw xs = Inr (lw', es)" and "lw_online lw' w'"
    and "subseq (sent w' @ lw_bufs lw') (sent w @ lw_bufs lw @ concat (map wop_bytes xs))"
    and "set es \<subseteq> {None} \<longrightarrow>
           sent w' @ lw_bufs lw' = sent w @ lw_bufs lw @ concat (map wop_bytes xs)"
    and "0 < lw_limit lw \<and> int (length (lw_bufs lw)) < lw_limit lw \<longrightarrow>
           int (length (lw_bufs lw')) < lw_limit lw"
  using assms
proof (induction xs arbitrary: lw w thesis)
  case Nil
  then show ?case by (auto simp: lw_online_def)
next
  case (Cons x xs)
  obtain lw1 w1 n e where s: "lw_step wr lw x = Inr (lw1, e)" "lw_online lw1 w1"
    "lw_limit lw1 = lw_limit lw"
    "sent w1 @ lw_bufs lw1 = sent w @ take n (lw_bufs lw @ wop_bytes x)"
    "e = None \<longrightarrow> sent w1 @ lw_bufs lw1 = sent w @ lw_bufs lw @ wop_bytes x"
    "0 < lw_limit lw \<and> int (length (lw_bufs lw)) < lw_limit lw \<longrightarrow>
       int (length (lw_bufs lw1)) < lw_limit lw"
    by (rule step_online [OF Cons.prems(2), of x])
  obtain lw2 w2 es where r: "lw_run wr lw1 xs = Inr (lw2, es)" "lw_online lw2 w2"
    "subseq (sent w2 @ lw_bufs lw2) (sent w1 @ lw_bufs lw1 @ concat (map wop_bytes xs))"
    "set es \<subseteq> {None} \<longrightarrow>
       sent w2 @ lw_bufs lw2 = sent w1 @ lw_bufs lw1 @ concat (map wop_bytes xs)"
    "0 < lw_limit lw1 \<and> int (length (lw_bufs lw1)) < lw_limit lw1 \<longrightarrow>
       int (length (lw_bufs lw2)) < lw_limit lw1"
    by (rule Cons.IH [OF _ s(2)])
  let ?tail = "concat (map wop_bytes xs)"
  have "subseq (sent w2 @ lw_bufs lw2) ((sent w @ take n (lw_bufs lw @ wop_bytes x)) @ ?tail)"
    using r(3) s(4) by (simp flip: append_assoc)
  moreover have "subseq ((sent w @ take n (lw_bufs lw @ wop_bytes x)) @ ?tail)
      ((sent w @ lw_bufs lw @ wop_bytes x) @ ?tail)"
    by (intro list_emb_append_mono subseq_order.refl prefix_imp_subseq take_is_prefix)
  ultimately have sub: "subseq (sent w2 @ lw_bufs lw2)
      (sent w @ lw_bufs lw @ concat (map wop_bytes (x # xs)))"
    by (metis (no_types, lifting) append_assoc concat.simps(2) list.simps(9) subseq_order.trans)
  show ?case
    by (rule Cons.prems(1) [of lw2 "e # es" w2])
      (use s(1,3,5,6) r sub in \<open>auto simp flip: append_assoc\<close>)
qed

end

text \<open>A writer that stays broken once it has failed.\<close>

locale sticky_sink = byte_sink wr sent
  for wr :: "'w write_op" and sent :: "'w \<Rightarrow> bytes" +
  fixes broken :: "'w \<Rightarrow> go_error option"
  assumes write_error: "wr w p = (w', n, Some e) \<Longrightarrow> broken w' = Some e"
    and write_broken: "broken w = Some e \<Longrightarrow> wr w p = (w, 0, Some e)"
begin

lemma broken_stays:
  assumes "wr w p = (w1, n, Some e)"
  shows "wr w1 q = (w1, 0, Some e)"
  by (rule write_broken [OF write_error [OF assms]])

lemma run_broken:
  assumes "broken w = Some e" and "lw_online lw w"
  obtains lw' es where "lw_run wr lw xs = Inr (lw', es)" and "lw_online lw' w"
    and "set es \<subseteq> {None, Some e}"
  using assms(2)
proof (induction xs arbitrary: lw thesis)
  case Nil
  then show ?case by auto
next
  case (Cons x xs)
  have fl: "lw_flush wr l = Inr (l\<lparr>lw_bufs := []\<rparr>, Some e)" if "lw_online l w" for l
    using that write_broken [OF assms(1)] by (simp add: lw_flush_def lw_online_def)
  obtain lw1 e1 where s: "lw_step wr lw x = Inr (lw1, e1)" "lw_online lw1 w" "e1 = None \<or> e1 = Some e"
  proof (cases x)
    case W_Flush
    with fl [OF Cons.prems(2)] Cons.prems(2) that show thesis by (simp add: lw_online_def)
  next
    case (W_Append bs)
    let ?lw = "lw\<lparr>lw_bufs := lw_bufs lw @ concat bs\<rparr>"
    have on: "lw_online ?lw w" and app: "foldl lw_append1 lw bs = ?lw"
      using Cons.prems(2) by (simp_all add: lw_online_def foldl_append1_online)
    show thesis
    proof (cases "lw_limit ?lw \<le> int (length (lw_bufs ?lw))")
      case True
      with W_Append app on that [OF _ on] that [of "?lw\<lparr>lw_bufs := []\<rparr>" "Some e"] fl [OF on]
      show thesis by (simp add: lw_appendBufs_def lw_online_def)
    next
      case False
      with W_Append app on that [of ?lw None] show thesis
        by (simp add: lw_appendBufs_def lw_online_def)
    qed
  qed
  obtain lw2 es where "lw_run wr lw1 xs = Inr (lw2, es)" "lw_online lw2 w" "set es \<subseteq> {None, Some e}"
    by (rule Cons.IH [OF _ s(2)])
  with s show ?case by (intro Cons.prems(1) [of lw2 "e1 # es"]) auto
qed

end

section \<open>The contract of a reader, and limReader over it\<close>

text \<open>The offsets of the reader lie in its buffer.\<close>

definition lr_ok :: "'r limReader \<Rightarrow> bool" where
  "lr_ok r \<longleftrightarrow> lr_n r \<le> length (lr_buf r) \<and> lr_off r \<le> int (lr_n r)"

locale byte_source =
  fixes rd :: "'r read_op"
    and stream :: "'r \<Rightarrow> bytes"
  assumes read_stream: "rd s n = (s', d, None) \<Longrightarrow> stream s = d @ stream s'"
    and read_length: "rd s n = (s', d, e) \<Longrightarrow> length d \<le> n"
begin

definition unread :: "'r limReader \<Rightarrow> bytes" where
  "unread r = (if 0 \<le> lr_off r then lr_window r else []) @ stream (lr_r r)"

lemma read_fresh:
  assumes "lr_ok r" and "lr_off r < 0"
  obtains src d e where "rd (lr_r r) (length (lr_buf r)) = (src, d, e)"
    and "lr_Read rd r = Inr (r\<lparr>lr_r := src, lr_buf := d @ drop (length d) (lr_buf r),
                                lr_n := length d\<rparr>, d, e)"
    and "length (d @ drop (length d) (lr_buf r)) = length (lr_buf r)"
    and "e = None \<longrightarrow> stream (lr_r r) = d @ stream src"
proof -
  obtain src d e where r: "rd (lr_r r) (length (lr_buf r)) = (src, d, e)"
    by (cases "rd (lr_r r) (length (lr_buf r))") auto
  with read_stream [of "lr_r r" "length (lr_buf r)" src d] read_length [OF r] assms that
  show thesis by (auto simp: lr_Read_def)
qed

lemma Read_ok:
  assumes "lr_ok r"
  obtains r' d e where "lr_Read rd r = Inr (r', d, e)" and "lr_ok r'"
    and "length (lr_buf r') = length (lr_buf r)" and "e = None \<longrightarrow> unread r = d @ unread r'"
proof (cases "0 \<le> lr_off r")
  case True
  with assms that [of "r\<lparr>lr_off := - 1\<rparr>" "lr_window r" None] show thesis
    by (auto simp: lr_Read_def lr_ok_def unread_def lr_window_def)
next
  case False
  then have "lr_off r < 0" by simp
  from read_fresh [OF assms this] obtain src d e where
    "lr_Read rd r = Inr (r\<lparr>lr_r := src, lr_buf := d @ drop (length d) (lr_buf r),
                            lr_n := length d\<rparr>, d, e)"
    "length (d @ drop (length d) (lr_buf r)) = length (lr_buf r)"
    "e = None \<longrightarrow> stream (lr_r r) = d @ stream src" by metis
  with False that show thesis by (auto simp: lr_ok_def unread_def)
qed

lemma index_byte_None: "index_byte bs d = None \<longleftrightarrow> d \<notin> set bs"
  by (induction bs d rule: index_byte.induct) auto

lemma index_byte_Some:
  "index_byte bs d = Some i \<Longrightarrow> i < length bs \<and> bs ! i = d \<and> d \<notin> set (take i bs)"
  by (induction bs d arbitrary: i rule: index_byte.induct) (auto split: if_splits)

lemma found_line:
  assumes "lr_ok r" and "0 \<le> lr_off r" and "index_byte (lr_window r) delim = Some i"
  defines "e \<equiv> lr_off r + int i + 1"
  defines "r' \<equiv> r\<lparr>lr_off := if int (lr_n r) \<le> e then - 1 else e\<rparr>"
  shows "lr_ok r' \<and> unread r = take (Suc i) (lr_window r) @ unread r'
    \<and> take (Suc i) (lr_window r) = take i (lr_window r) @ [delim]
    \<and> delim \<notin> set (take i (lr_window r))"
proof -
  let ?w = "lr_window r"
  from index_byte_Some [OF assms(3)] have i: "i < length ?w" "?w ! i = delim"
    "delim \<notin> set (take i ?w)" by auto
  have lw: "length ?w = lr_n r - nat (lr_off r)"
    using assms(1,2) by (auto simp: lr_window_def lr_ok_def)
  have "(if 0 \<le> lr_off r' then lr_window r' else []) = drop (Suc i) ?w"
  proof (cases "int (lr_n r) \<le> e")
    case True
    then have "length ?w \<le> Suc i" using lw assms(2) by (auto simp: e_def)
    with True show ?thesis by (simp add: r'_def)
  next
    case False
    then have "nat e = Suc i + nat (lr_off r)" using assms(2) by (auto simp: e_def)
    with False assms(2) show ?thesis
      by (auto simp: r'_def lr_window_def e_def drop_take add.commute)
  qed
  moreover have "lr_r r' = lr_r r" by (simp add: r'_def)
  ultimately have "unread r' = drop (Suc i) ?w @ stream (lr_r r)" by (simp only: unread_def)
  moreover have "unread r = (take (Suc i) ?w @ drop (Suc i) ?w) @ stream (lr_r r)"
    using assms(2) by (simp add: unread_def)
  ultimately have "unread r = take (Suc i) ?w @ unread r'" by simp
  moreover have "lr_ok r'" using assms(1) by (auto simp: lr_ok_def r'_def)
  ultimately show ?thesis using i by (simp add: take_Suc_conv_app_nth)
qed

text \<open>A round that finds no delimiter: it ends with the read's error, or goes on with more data.\<close>

lemma ReadString_more:
  assumes "lr_ok r" and none: "(if 0 \<le> lr_off r then index_byte (lr_window r) delim else None) = None"
  obtains (failed) r' err where "lr_ok r'"
      and "lr_ReadString (Suc fuel) rd delim s r = Some (Inr (r', (if 0 \<le> lr_off r then s @ lr_window r else s), Some err))"
    | (more) q where "lr_ok q" and "unread r = (if 0 \<le> lr_off r then lr_window r else []) @ unread q"
      and "lr_ReadString (Suc fuel) rd delim s r =
        lr_ReadString fuel rd delim (if 0 \<le> lr_off r then s @ lr_window r else s) q"
proof -
  have valid: "\<not> (0 \<le> lr_off r \<and> int (lr_n r) < lr_off r)" using assms(1) by (auto simp: lr_ok_def)
  let ?r = "if 0 \<le> lr_off r then r\<lparr>lr_off := - 1\<rparr> else r"
  have fresh: "lr_ok ?r" "lr_off ?r < 0" using assms(1) by (auto simp: lr_ok_def)
  have pre: "unread r = (if 0 \<le> lr_off r then lr_window r else []) @ stream (lr_r ?r)"
    by (simp add: unread_def)
  obtain src d e where rd: "lr_Read rd ?r = Inr (?r\<lparr>lr_r := src,
        lr_buf := d @ drop (length d) (lr_buf ?r), lr_n := length d\<rparr>, d, e)"
    and len: "length (d @ drop (length d) (lr_buf ?r)) = length (lr_buf ?r)"
    and str: "e = None \<longrightarrow> stream (lr_r ?r) = d @ stream src"
    using read_fresh [OF fresh] by metis
  let ?q = "?r\<lparr>lr_r := src, lr_buf := d @ drop (length d) (lr_buf ?r), lr_n := length d\<rparr>"
  show thesis
  proof (cases e)
    case (Some err)
    have "lr_ok ?q" using fresh(1) len by (auto simp: lr_ok_def split: if_splits)
    with none valid rd Some show ?thesis by (intro failed [of ?q]) (auto simp: Let_def)
  next
    case None
    have "lr_ok (?q\<lparr>lr_off := 0\<rparr>)" by (auto simp: lr_ok_def)
    moreover have "unread (?q\<lparr>lr_off := 0\<rparr>) = d @ stream src"
      by (simp add: unread_def lr_window_def)
    ultimately show ?thesis
      using none valid rd None pre str by (intro more [of "?q\<lparr>lr_off := 0\<rparr>"]) (auto simp: Let_def)
  qed
qed

lemma ReadString_line:
  assumes "lr_ok r" and "lr_ReadString fuel rd delim s r = Some res"
  shows "\<exists>r' out e. res = Inr (r', out, e) \<and> lr_ok r' \<and>
    (e = None \<longrightarrow> (\<exists>line. out = s @ line @ [delim] \<and> delim \<notin> set line
                      \<and> unread r = line @ [delim] @ unread r'))"
  using assms
proof (induction fuel arbitrary: s r)
  case 0
  then show ?case by simp
next
  case (Suc fuel)
  show ?case
  proof (cases "if 0 \<le> lr_off r then index_byte (lr_window r) delim else None")
    case (Some i)
    then have off: "0 \<le> lr_off r" and i: "index_byte (lr_window r) delim = Some i"
      by (auto split: if_splits)
    have "\<not> int (lr_n r) < lr_off r" using Suc.prems(1) off by (auto simp: lr_ok_def)
    with Suc.prems(2) Some show ?thesis
      using found_line [OF Suc.prems(1) off i] by (auto simp: Let_def)
  next
    case None
    have no: "0 \<le> lr_off r \<longrightarrow> delim \<notin> set (lr_window r)"
      using None by (auto simp: index_byte_None)
    from Suc.prems(1) None show ?thesis
    proof (cases rule: ReadString_more [where fuel = fuel and s = s])
      case (failed r' err)
      with Suc.prems(2) show ?thesis by simp
    next
      case (more q)
      with Suc.prems(2) Suc.IH [OF more(1)] no show ?thesis
        by (fastforce split: if_splits)
    qed
  qed
qed

end

section \<open>The streams of the program meet the contracts\<close>

interpretation conn_sink: byte_sink conn_write c_wire
  by unfold_locales
    (auto simp: conn_write_def min_def split: if_splits list.splits option.splits)

interpretation tw_sink: sticky_sink tw_Write "\<lambda>tw. c_wire (tw_conn tw)" tw_err
proof
  fix w w' :: timeoutWriter and p n e
  assume "tw_Write w p = (w', n, e)"
  then show "c_wire (tw_conn w') = c_wire (tw_conn w) @ take n p"
    using conn_sink.write_sent [of "tw_conn w" p "tw_conn w'" n e]
    by (auto simp: tw_Write_def split: option.splits prod.splits)
next
  fix w w' :: timeoutWriter and p n
  assume "tw_Write w p = (w', n, None)"
  then show "n = length p"
    using conn_sink.write_full [of "tw_conn w" p "tw_conn w'" n]
    by (auto simp: tw_Write_def split: option.splits prod.splits)
qed (auto simp: tw_Write_def split: option.splits prod.splits)

interpretation io_sink: byte_sink io_Write "\<lambda>w. c_wire (io_conn w)"
proof
  fix w w' p n e
  assume "io_Write w p = (w', n, e)"
  then show "c_wire (io_conn w') = c_wire (io_conn w) @ take n p"
    by (cases w) (auto dest: conn_sink.write_sent tw_sink.write_sent split: prod.splits)
next
  fix w w' p n
  assume "io_Write w p = (w', n, None)"
  then show "n = length p"
    by (cases w) (auto dest: conn_sink.write_full tw_sink.write_full split: prod.splits)
qed

interpretation conn_source: byte_source conn_read incoming
  by unfold_locales
    (auto simp: conn_read_def incoming_def split: if_splits list.splits)

text \<open>How many reads a scripted connection can answer without an error.\<close>

definition script_size :: "conn \<Rightarrow> nat" where
  "script_size c = sum_list (map (\<lambda>(d, e). Suc (length d)) (c_inbox c))"

lemma conn_read_progress:
  "conn_read c n = (c', d, None) \<Longrightarrow> 0 < n \<Longrightarrow> script_size c' < script_size c"
  by (auto simp: conn_read_def script_size_def split: if_splits list.splits)

lemma lr_Read_length:
  "lr_Read conn_read r = Inr (r', d, e) \<Longrightarrow> length (lr_buf r') = length (lr_buf r)"
  using conn_source.read_length
  by (fastforce simp: lr_Read_def split: if_splits prod.splits)

section \<open>Properties\<close>

text \<open>A connection on which every write goes through, and a writer on it.\<close>

definition demo_wire :: io_writer where
  "demo_wire = Conn_Writer \<lparr>c_wire = [9], c_faults = [None, Some 1], c_inbox = [], c_closed = False\<rparr>"

definition demo_writer :: "io_writer limWriter" where
  "demo_writer = \<lparr>lw_w = Some demo_wire, lw_bufs = [1], lw_limit = 4, lw_pending = None, lw_plimit = 8\<rparr>"

text \<open>
  C9. The buffered writer is a byte stream. Any run of appends and flushes on a connected writer
  ends without a panic; what is on the wire and in the buffer is then a subsequence of what was
  there before followed by everything appended, so bytes are never duplicated or reordered even
  when writes fail, and it is exactly that concatenation when no operation reported an error.
\<close>

theorem limWriter_stream:
  assumes "lw_pending lw = None" and "lw_w lw = Some w"
  shows "\<exists>lw' w' es. lw_run io_Write lw ops = Inr (lw', es) \<and> lw_pending lw' = None \<and>
    lw_w lw' = Some w' \<and>
    subseq (c_wire (io_conn w') @ lw_bufs lw')
           (c_wire (io_conn w) @ lw_bufs lw @ concat (map wop_bytes ops)) \<and>
    (set es \<subseteq> {None} \<longrightarrow>
       c_wire (io_conn w') @ lw_bufs lw' = c_wire (io_conn w) @ lw_bufs lw @ concat (map wop_bytes ops)) \<and>
    (int (length (lw_bufs lw)) < lw_limit lw \<longrightarrow> int (length (lw_bufs lw')) < lw_limit lw)"
proof -
  have "lw_online lw w" using assms by (simp add: lw_online_def)
  then show ?thesis by (rule io_sink.run_online) (auto simp: lw_online_def)
qed

theorem limWriter_stream_witness:
  "\<exists>lw' w' es. lw_run io_Write demo_writer [W_Append [[2], [3, 4]], W_Append [[5, 6]], W_Flush] =
       Inr (lw', es) \<and> lw_w lw' = Some w' \<and>
     subseq (c_wire (io_conn w') @ lw_bufs lw') [9, 1, 2, 3, 4, 5, 6] \<and>
     int (length (lw_bufs lw')) < 4"
  using limWriter_stream [of demo_writer demo_wire "[W_Append [[2], [3, 4]], W_Append [[5, 6]], W_Flush]"]
  by (auto simp: demo_writer_def demo_wire_def)



text \<open>
  The reconnect buffer has no bound. However many bytes are already pending, also when
  \<^verbatim>\<open>atLimitIfUsingPending\<close> says that the reconnect buffer size has been reached, an append
  reports no error and stores all its bytes.
\<close>

theorem pending_append_never_refused:
  assumes "lw_pending lw = Some p"
  shows "lw_appendBufs io_Write lw bs = Inr (lw\<lparr>lw_pending := Some (p @ concat bs)\<rparr>, None)"
  using lw_step_pending [OF assms, of io_Write "W_Append bs"] by simp

theorem pending_append_never_refused_witness:
  "lw_atLimitIfUsingPending
     \<lparr>lw_w = None, lw_bufs = [], lw_limit = 4, lw_pending = Some [1, 2], lw_plimit = 2\<rparr> \<and>
   lw_appendBufs io_Write
     \<lparr>lw_w = None, lw_bufs = [], lw_limit = 4, lw_pending = Some [1, 2], lw_plimit = 2\<rparr> [[3], [4]]
   = Inr (\<lparr>lw_w = None, lw_bufs = [], lw_limit = 4, lw_pending = Some [1, 2, 3, 4], lw_plimit = 2\<rparr>,
          None)"
  by (subst pending_append_never_refused [where p = "[1, 2]"])
    (simp_all add: lw_atLimitIfUsingPending_def)

text \<open>
  A \<^verbatim>\<open>timeoutWriter\<close> fails for good: once a write has returned an error, every run of appends
  and flushes over it leaves the wire as it is, and no error but that one is ever returned.
\<close>

theorem timeoutWriter_sticky:
  assumes "tw_Write tw p = (tw', n, Some e)" and "lw_pending lw = None" and "lw_w lw = Some tw'"
  shows "\<exists>lw' es. lw_run tw_Write lw ops = Inr (lw', es) \<and> lw_w lw' = Some tw' \<and>
    set es \<subseteq> {None, Some e}"
proof -
  have "lw_online lw tw'" using assms by (simp add: lw_online_def)
  with tw_sink.write_error [OF assms(1)] obtain lw' es
    where "lw_run tw_Write lw ops = Inr (lw', es)" "lw_online lw' tw'" "set es \<subseteq> {None, Some e}"
    by (rule tw_sink.run_broken)
  then show ?thesis by (auto simp: lw_online_def)
qed

theorem timeoutWriter_sticky_witness:
  "\<exists>tw' n lw' es. tw_Write \<lparr>tw_timeout = 5, tw_conn = \<lparr>c_wire = [], c_faults = [Some 1], c_inbox = [], c_closed = False\<rparr>,
        tw_err = None\<rparr> [1, 2] = (tw', n, Some (Err_External 0)) \<and>
     lw_run tw_Write \<lparr>lw_w = Some tw', lw_bufs = [], lw_limit = 4, lw_pending = None, lw_plimit = 8\<rparr>
       [W_Append [[3, 4, 5, 6]], W_Flush] = Inr (lw', es) \<and> lw_w lw' = Some tw'"
proof -
  let ?tw = "\<lparr>tw_timeout = 5, tw_conn = \<lparr>c_wire = [], c_faults = [Some 1], c_inbox = [], c_closed = False\<rparr>,
    tw_err = None\<rparr>"
  obtain tw' n where w: "tw_Write ?tw [1, 2] = (tw', n, Some (Err_External 0))"
    by (simp add: tw_Write_def conn_write_def)
  from timeoutWriter_sticky [OF w, of "\<lparr>lw_w = Some tw', lw_bufs = [], lw_limit = 4,
      lw_pending = None, lw_plimit = 8\<rparr>" "[W_Append [[3, 4, 5, 6]], W_Flush]"] w
  show ?thesis by auto
qed

lemma ReadString_terminates:
  assumes "0 < length (lr_buf r)" and "script_size (lr_r r) < fuel"
  shows "\<exists>res. lr_ReadString fuel conn_read delim s r = Some res"
  using assms
proof (induction fuel arbitrary: s r)
  case 0
  then show ?case by simp
next
  case (Suc fuel)
  let ?r = "if 0 \<le> lr_off r then r\<lparr>lr_off := - 1\<rparr> else r"
  let ?s = "if 0 \<le> lr_off r then s @ lr_window r else s"
  have neg: "\<not> 0 \<le> lr_off ?r" by simp
  have same: "lr_buf ?r = lr_buf r" "lr_r ?r = lr_r r" by auto
  show ?case
  proof (cases "\<exists>r'' d. lr_Read conn_read ?r = Inr (r'', d, None)")
    case False
    then show ?thesis by (auto simp: Let_def split: option.splits sum.splits prod.splits)
  next
    case True
    then obtain r'' d where rd: "lr_Read conn_read ?r = Inr (r'', d, None)" by auto
    then have "conn_read (lr_r r) (length (lr_buf r)) = (lr_r r'', d, None)"
      using neg same by (auto simp: lr_Read_def split: prod.splits)
    then have "script_size (lr_r r'') < script_size (lr_r r)"
      using Suc.prems(1) by (rule conn_read_progress)
    moreover have "0 < length (lr_buf r'')"
      using lr_Read_length [OF rd] same Suc.prems(1) by simp
    ultimately have "\<exists>res. lr_ReadString fuel conn_read delim ?s (r''\<lparr>lr_off := 0\<rparr>) = Some res"
      using Suc.prems(2) by (intro Suc.IH) auto
    with rd show ?thesis by (auto simp: Let_def split: option.splits)
  qed
qed

text \<open>
  C20. \<^verbatim>\<open>ReadString\<close> over a connection returns (as many rounds as the connection can answer reads
  suffice), never panics, and when it returns no error its result is the part of the unread stream
  up to and including the first delimiter, the rest staying unread.
\<close>

theorem ReadString_first_line:
  assumes "lr_n r \<le> length (lr_buf r)" and "lr_off r \<le> int (lr_n r)"
    and "0 < length (lr_buf r)" and "script_size (lr_r r) < fuel"
  shows "\<exists>r' out e. lr_ReadString fuel conn_read delim [] r = Some (Inr (r', out, e)) \<and>
    (e = None \<longrightarrow>
       (\<exists>line. out = line @ [delim] \<and> delim \<notin> set line \<and>
          (if 0 \<le> lr_off r then lr_window r else []) @ incoming (lr_r r)
          = out @ (if 0 \<le> lr_off r' then lr_window r' else []) @ incoming (lr_r r')))"
proof -
  obtain res where res: "lr_ReadString fuel conn_read delim [] r = Some res"
    using ReadString_terminates [OF assms(3,4)] by blast
  have "lr_ok r" using assms(1,2) by (simp add: lr_ok_def)
  from conn_source.ReadString_line [OF this res] res show ?thesis
    by (auto simp: conn_source.unread_def)
qed

theorem ReadString_first_line_witness:
  "\<exists>r'. lr_ReadString 9 conn_read 10 [] \<lparr>lr_r = \<lparr>c_wire = [], c_faults = [], c_inbox =
        [([1, 2], None), ([3, 10, 4], None)], c_closed = False\<rparr>, lr_buf = [0, 0, 0], lr_off = - 1, lr_n = 0\<rparr> =
      Some (Inr (r', [1, 2, 3, 10], None))"
proof -
  let ?r = "\<lparr>lr_r = \<lparr>c_wire = [], c_faults = [], c_inbox = [([1, 2], None), ([3, 10, 4], None)],
    c_closed = False\<rparr>, lr_buf = [0, 0, 0 :: byte], lr_off = - 1, lr_n = 0\<rparr>"
  let ?res = "lr_ReadString 9 conn_read 10 [] ?r"
  have sz: "script_size (lr_r ?r) < 9" by code_simp
  have ev: "case ?res of Some (Inr (r', out, e)) \<Rightarrow> out = [1, 2, 3, 10] \<and> e = None | _ \<Rightarrow> False"
    by code_simp
  obtain r' out e where "?res = Some (Inr (r', out, e))"
    using ReadString_first_line [of ?r 9 10] sz by auto
  with ev show ?thesis by auto
qed

end
