(* ===== verification/Client.thy ===== *)
theory Client
  imports Client_Config Framing Lim_Buffer
begin

text \<open>
  The client of \<^verbatim>\<open>pkg/client/client.go\<close>: its state, and every operation as one function on
  that state. A function covers what the code does between taking and releasing the mutex \<^verbatim>\<open>mu\<close>;
  \<open>Client_Lifecycle\<close> interleaves them.

  The protocol package, the cryptographic helpers and the dialled network are parameters, collected
  in the record \<open>env\<close>. Deadlines and log output have no counterpart.
\<close>

section \<open>Packets\<close>

text \<open>The fields of the protocol package's packets that the client writes or reads.\<close>

record framer =
  NoPersist :: bool
  SyncOnce :: bool
  RedDot :: bool

record SendPacket =
  sp_Framer :: framer
  sp_NoEncrypt :: bool
  sp_ClientSeq :: u64
  sp_ClientMsgNo :: string
  sp_ChannelID :: string
  sp_ChannelType :: byte
  sp_Payload :: bytes
  sp_MsgKey :: string

record RecvPacket =
  rp_Framer :: framer
  rp_NoEncrypt :: bool
  rp_MessageID :: int
  rp_MessageSeq :: nat
  rp_FromUID :: string
  rp_Payload :: bytes

record SendackPacket =
  sa_ClientSeq :: u64
  sa_MessageID :: int
  sa_ReasonCode :: nat

record ConnectPacket =
  cp_Version :: byte
  cp_DeviceID :: string
  cp_ClientKey :: string
  cp_ClientTimestamp :: int
  cp_UID :: string
  cp_Token :: string

record ConnackPacket =
  ca_Salt :: string
  ca_ServerKey :: string
  ca_ReasonCode :: nat

datatype frame =
    Connect_Frame ConnectPacket
  | Connack_Frame ConnackPacket
  | Send_Frame SendPacket
  | Sendack_Frame SendackPacket
  | Recv_Frame RecvPacket
  | Recvack_Frame framer int nat
  | Ping_Frame
  | Pong_Frame
  | Other_Frame nat

record env =
  EncodeFrame :: "frame \<Rightarrow> byte \<Rightarrow> go_error + bytes"
  DecodeFrame :: "bytes \<Rightarrow> byte \<Rightarrow> go_error + frame \<times> nat"
  DecodePacketWithConn :: "conn \<Rightarrow> byte \<Rightarrow> conn \<times> (go_error + frame)"
  GetFrameSize :: "frame \<Rightarrow> nat"
  ReasonSuccess :: nat
  VerityString :: "SendPacket \<Rightarrow> bytes"
  AesEncrypt :: "bytes \<Rightarrow> string \<Rightarrow> string \<Rightarrow> go_error + bytes"
  AesDecrypt :: "bytes \<Rightarrow> string \<Rightarrow> string \<Rightarrow> go_error + bytes"
  MD5 :: "bytes \<Rightarrow> string"
  Curve25519Key :: "bytes \<Rightarrow> bytes \<Rightarrow> bytes"

section \<open>State\<close>

datatype ptimer = Timer_Running | Timer_Stopped

text \<open>
  \<open>conn\<close> is nil or the number of the connection, the connection itself being the one below
  \<open>writer\<close>. A channel of capacity one is \<open>None\<close> when nil and otherwise tells whether it holds a
  token. \<open>pongs\<close> holds nil entries and the numbers of the channels \<^verbatim>\<open>FlushTimeout\<close> makes;
  \<open>signalled\<close> lists the channels that were sent a value. \<open>wg\<close> is the counter of the wait group,
  \<open>reconnecting_routines\<close> the number of running \<^verbatim>\<open>doReconnect\<close> calls.
\<close>

record client =
  addr :: string
  aesKey :: string
  salt :: string
  clientIDGen :: u64
  writer :: "io_writer limWriter"
  opts :: copts
  status :: status
  abortReconnect :: bool
  conn :: "nat option"
  next_conn :: nat
  pingOut :: int
  pingIntervalTimer :: "ptimer option"
  flusherExitChan :: "bool option"
  reconnQuitCh :: "bool option"
  pongs :: "nat option list option"
  signalled :: "nat list"
  cl_err :: "go_error option"
  lastSendMsgTime :: "int option"
  wg :: nat
  reconnecting_routines :: nat
  InMsgs :: u64
  OutMsgs :: u64
  InBytes :: u64
  OutBytes :: u64
  Reconnects :: u64

type_synonym 'r client_res = "(client \<times> 'r) go"

text \<open>\<^verbatim>\<open>New\<close>: the options are applied in order, nil ones skipped, the first error panics.\<close>

fun apply_options :: "copts \<Rightarrow> copts option_fn option list \<Rightarrow> copts go" where
  "apply_options o1 [] = Inr o1"
| "apply_options o1 (None # ops) = apply_options o1 ops"
| "apply_options o1 (Some op # ops) =
     (case op o1 of (o2, None) \<Rightarrow> apply_options o2 ops | (o2, Some e) \<Rightarrow> Inl Explicit_Panic)"

definition fresh_client :: "string \<Rightarrow> copts \<Rightarrow> client" where
  "fresh_client address o1 =
     \<lparr>addr = address, aesKey = [], salt = [], clientIDGen = 0,
      writer = \<lparr>lw_w = None, lw_bufs = [], lw_limit = DefaultBufSize o1, lw_pending = None,
                lw_plimit = ReconnectBufSize o1\<rparr>,
      opts = o1, status = DISCONNECTED, abortReconnect = False, conn = None, next_conn = 0,
      pingOut = 0, pingIntervalTimer = None, flusherExitChan = None, reconnQuitCh = None,
      pongs = None, signalled = [], cl_err = None, lastSendMsgTime = None, wg = 0,
      reconnecting_routines = 0, InMsgs = 0, OutMsgs = 0, InBytes = 0, OutBytes = 0,
      Reconnects = 0\<rparr>"

definition New :: "byte \<Rightarrow> string \<Rightarrow> copts option_fn option list \<Rightarrow> client go" where
  "New LatestVersion address opt =
     go_bind (apply_options (NewOptions LatestVersion) opt)
       (\<lambda>o1. Inr (fresh_client address o1))"

definition isClosed :: "client \<Rightarrow> bool" where
  "isClosed c \<longleftrightarrow> status c = CLOSED"

definition isConnected :: "client \<Rightarrow> bool" where
  "isConnected c \<longleftrightarrow> status c = CONNECTED"

definition isConnecting :: "client \<Rightarrow> bool" where
  "isConnecting c \<longleftrightarrow> status c = CONNECTING"

definition isReconnecting :: "client \<Rightarrow> bool" where
  "isReconnecting c \<longleftrightarrow> status c = RECONNECTING"

section \<open>Small operations\<close>

definition client_setup :: "client \<Rightarrow> client" where
  "client_setup c = c\<lparr>reconnQuitCh := Some False, flusherExitChan := Some False, pongs := Some []\<rparr>"

text \<open>A send in a \<^verbatim>\<open>select\<close> with a default: a nil or full channel is passed over.\<close>

definition kickFlusher :: "client \<Rightarrow> client" where
  "kickFlusher c = c\<lparr>flusherExitChan := map_option (\<lambda>_. True) (flusherExitChan c)\<rparr>"

definition stopPingTimer :: "client \<Rightarrow> client" where
  "stopPingTimer c =
     c\<lparr>pingIntervalTimer := map_option (\<lambda>_. Timer_Stopped) (pingIntervalTimer c)\<rparr>"

text \<open>Closing the network connection below the writer.\<close>

fun close_io :: "io_writer \<Rightarrow> io_writer" where
  "close_io (Conn_Writer c) = Conn_Writer (conn_close c)"
| "close_io (Timeout_Writer tw) = Timeout_Writer (tw\<lparr>tw_conn := conn_close (tw_conn tw)\<rparr>)"

definition close_conn :: "client \<Rightarrow> client" where
  "close_conn c = c\<lparr>writer := (writer c)\<lparr>lw_w := map_option close_io (lw_w (writer c))\<rparr>\<rparr>"

definition writer_op ::
    "(io_writer limWriter \<Rightarrow> (io_writer limWriter \<times> go_error option) go) \<Rightarrow> client
       \<Rightarrow> go_error option client_res" where
  "writer_op f c = go_bind (f (writer c)) (\<lambda>(w, e). Inr (c\<lparr>writer := w\<rparr>, e))"

text \<open>\<^verbatim>\<open>close\<close>: what it does first, and the whole of it.\<close>

definition close_cleanup :: "client \<Rightarrow> client" where
  "close_cleanup c =
     (stopPingTimer ((kickFlusher (c\<lparr>status := CLOSED\<rparr>))\<lparr>reconnQuitCh := None\<rparr>))
       \<lparr>pingIntervalTimer := None\<rparr>"

definition close :: "status \<Rightarrow> client \<Rightarrow> client go" where
  "close st c =
     (if isClosed c then Inr (c\<lparr>status := st\<rparr>)
      else
        let c2 = close_cleanup c
        in if abortReconnect c2 \<and> conn c2 \<noteq> None
           then Inr ((close_conn c2)\<lparr>conn := None, status := st\<rparr>)
           else if conn c2 \<noteq> None
           then go_bind (writer_op (lw_flush io_Write) c2) (\<lambda>(c3, e).
                  Inr (close_conn (c3\<lparr>status := st\<rparr>)))
           else Inr (c2\<lparr>status := st\<rparr>))"

definition Close :: "client \<Rightarrow> client go" where
  "Close c = close CLOSED c"

section \<open>Sending\<close>

definition sendPacket :: "env \<Rightarrow> frame \<Rightarrow> client \<Rightarrow> go_error option client_res" where
  "sendPacket E packet c =
     (case EncodeFrame E packet (ProtoVersion (opts c)) of
        Inl err \<Rightarrow> Inr (c, Some err)
      | Inr data \<Rightarrow>
          writer_op (\<lambda>w. lw_writeDirect io_Write w data)
            (c\<lparr>OutBytes := OutBytes c + of_nat (length data), OutMsgs := OutMsgs c + 1\<rparr>))"

definition appendPacket :: "env \<Rightarrow> frame \<Rightarrow> client \<Rightarrow> (int \<times> go_error option) client_res" where
  "appendPacket E packet c =
     (case EncodeFrame E packet (ProtoVersion (opts c)) of
        Inl err \<Rightarrow> Inr (c, 0, Some err)
      | Inr data \<Rightarrow>
          go_bind (writer_op (\<lambda>w. lw_appendBufs io_Write w [data])
                     (c\<lparr>OutBytes := OutBytes c + of_nat (length data), OutMsgs := OutMsgs c + 1\<rparr>))
            (\<lambda>(c1, e). case e of
               Some err \<Rightarrow> Inr (c1, 0, Some err)
             | None \<Rightarrow>
                 Inr (if flusherExitChan c1 \<noteq> Some True then kickFlusher c1 else c1,
                      int (length data), None)))"

definition sendPing :: "env \<Rightarrow> nat option \<Rightarrow> client \<Rightarrow> go_error option client_res" where
  "sendPing E ch c =
     (let c1 = c\<lparr>pongs := Some ((case pongs c of None \<Rightarrow> [] | Some ps \<Rightarrow> ps) @ [ch])\<rparr>
      in case EncodeFrame E Ping_Frame (ProtoVersion (opts c1)) of
           Inl err \<Rightarrow> Inr (c1, Some err)
         | Inr data \<Rightarrow>
             go_bind (writer_op (\<lambda>w. lw_appendBufs io_Write w [data]) c1) (\<lambda>(c2, e).
               case e of
                 Some err \<Rightarrow> Inr (c2, Some err)
               | None \<Rightarrow> go_bind (writer_op (lw_flush io_Write) c2) (\<lambda>(c3, e3). Inr (c3, None))))"

text \<open>\<^verbatim>\<open>FlushTimeout\<close> up to its unlock: \<open>Inl\<close> of the second component is the error returned at
  once, \<open>Inr\<close> says that the call now waits on its channel. Then what the wait comes to: a value on
  the channel, or the timer, after which the entry of the channel is taken out of \<open>pongs\<close>.\<close>

definition FlushTimeout_start ::
    "env \<Rightarrow> int \<Rightarrow> nat \<Rightarrow> client \<Rightarrow> (go_error + nat) client_res" where
  "FlushTimeout_start E timeout ch c =
     (if timeout \<le> 0 then Inr (c, Inl ErrBadTimeout)
      else if isClosed c then Inr (c, Inl ErrConnectionClosed)
      else go_bind (sendPing E (Some ch) c) (\<lambda>(c1, e). Inr (c1, Inr ch)))"

fun remove_entry :: "nat \<Rightarrow> nat option list \<Rightarrow> nat option list option" where
  "remove_entry ch [] = None"
| "remove_entry ch (cp # ps) =
     (if cp = Some ch then Some (None # ps) else map_option (Cons cp) (remove_entry ch ps))"

definition removeFlushEntry :: "nat \<Rightarrow> client \<Rightarrow> client \<times> bool" where
  "removeFlushEntry ch c =
     (case pongs c of None \<Rightarrow> (c, False)
      | Some ps \<Rightarrow> (case remove_entry ch ps of
                     None \<Rightarrow> (c, False)
                   | Some ps' \<Rightarrow> (c\<lparr>pongs := Some ps'\<rparr>, True)))"

definition FlushTimeout_end :: "nat \<Rightarrow> client \<Rightarrow> client \<times> go_error option" where
  "FlushTimeout_end ch c =
     (if ch \<in> set (signalled c) then (c, None)
      else (fst (removeFlushEntry ch c), Some ErrTimeout))"

definition Flush :: "env \<Rightarrow> nat \<Rightarrow> client \<Rightarrow> (go_error + nat) client_res" where
  "Flush E ch c = FlushTimeout_start E (10 * 10 ^ 9) ch c"

definition handlePong :: "client \<Rightarrow> client" where
  "handlePong c =
     (case pongs c of
        Some (ch # ps) \<Rightarrow>
          c\<lparr>pongs := Some ps, pingOut := 0,
            signalled := (case ch of None \<Rightarrow> signalled c | Some k \<Rightarrow> signalled c @ [k])\<rparr>
      | _ \<Rightarrow> c\<lparr>pingOut := 0\<rparr>)"

section \<open>Connecting\<close>

text \<open>\<^verbatim>\<open>bindToNewConn\<close> and \<^verbatim>\<open>createConn\<close>; \<open>dial\<close> says what \<^verbatim>\<open>net.DialTimeout\<close> returns for a
  network and an address.\<close>

type_synonym dialer = "string \<Rightarrow> string \<Rightarrow> go_error + conn"

definition bindToNewConn :: "conn \<Rightarrow> client \<Rightarrow> client" where
  "bindToNewConn cn c = c\<lparr>writer := lw_bind (newWriter (FlusherTimeout (opts c)) cn) (writer c)\<rparr>"

definition createConn :: "dialer \<Rightarrow> client \<Rightarrow> go_error option client_res" where
  "createConn dial c =
     go_bind (parseAddr (addr c)) (\<lambda>(network, address, port).
       case dial network address of
         Inl err \<Rightarrow> Inr (c, Some err)
       | Inr cn \<Rightarrow>
           Inr (bindToNewConn cn (c\<lparr>conn := Some (next_conn c), next_conn := Suc (next_conn c)\<rparr>),
                None))"

fun set_io_conn :: "conn \<Rightarrow> io_writer \<Rightarrow> io_writer" where
  "set_io_conn cn (Conn_Writer c) = Conn_Writer cn"
| "set_io_conn cn (Timeout_Writer tw) = Timeout_Writer (tw\<lparr>tw_conn := cn\<rparr>)"

text \<open>\<^verbatim>\<open>copy(serverPubKey[:], serverKey[:32])\<close>: the slice expression may reach into the spare
  capacity of the decoded key.\<close>

definition server_key32 :: "byte gslice \<Rightarrow> bytes go" where
  "server_key32 serverKey = go_slice serverKey 0 32"

definition finish_handshake ::
    "env \<Rightarrow> bytes \<Rightarrow> ConnackPacket \<Rightarrow> client \<Rightarrow> go_error option client_res" where
  "finish_handshake E clientPrivKey connack c =
     (if ca_ReasonCode connack \<noteq> ReasonSuccess E then Inr (c, Some Err_Connect_Failed)
      else
        let c1 = c\<lparr>salt := ca_Salt connack\<rparr>
        in case b64_DecodeString (ca_ServerKey connack) of
             None \<Rightarrow> Inr (c1, Some (Err_External 1))
           | Some serverKey \<Rightarrow>
               go_bind (server_key32 serverKey) (\<lambda>serverPubKey.
                 let shareKey = Curve25519Key E clientPrivKey serverPubKey;
                     digest = MD5 E (map of_char (b64_EncodeToString shareKey))
                 in if length digest < 16 then Inl Slice_Bounds
                    else Inr (c1\<lparr>aesKey := take 16 digest, status := CONNECTED\<rparr>, None)))"

text \<open>\<^verbatim>\<open>sendConnect\<close>, from reading the answer on, and as a whole; the key pair, the device id and the
  clock are given.\<close>

definition receive_connack :: "env \<Rightarrow> bytes \<Rightarrow> client \<Rightarrow> go_error option client_res" where
  "receive_connack E clientPrivKey c =
     (case lw_w (writer c) of
        None \<Rightarrow> Inl Nil_Dereference
      | Some w \<Rightarrow>
          (case DecodePacketWithConn E (io_conn w) (ProtoVersion (opts c)) of
             (cn, r) \<Rightarrow>
               let c2 = c\<lparr>writer := (writer c)\<lparr>lw_w := Some (set_io_conn cn w)\<rparr>\<rparr>
               in case r of
                    Inl err \<Rightarrow> Inr (c2, Some err)
                  | Inr (Connack_Frame connack) \<Rightarrow> finish_handshake E clientPrivKey connack c2
                  | Inr _ \<Rightarrow> Inr (c2, Some Err_Not_Connack)))"

definition sendConnect ::
    "env \<Rightarrow> bytes \<times> bytes \<Rightarrow> string \<Rightarrow> int \<Rightarrow> client \<Rightarrow> go_error option client_res" where
  "sendConnect E keyPair uuid now c =
     (case keyPair of (clientPrivKey, clientPubKey) \<Rightarrow>
        let packet = Connect_Frame
              \<lparr>cp_Version = ProtoVersion (opts c), cp_DeviceID = GenUUID uuid,
               cp_ClientKey = b64_EncodeToString clientPubKey, cp_ClientTimestamp = now,
               cp_UID = UID (opts c), cp_Token = Token (opts c)\<rparr>
        in go_bind (sendPacket E packet c) (\<lambda>(c1, e).
             if e \<noteq> None then Inr (c1, e) else receive_connack E clientPrivKey c1))"

record handshake =
  hs_dial :: dialer
  hs_keys :: "bytes \<times> bytes"
  hs_uuid :: string
  hs_now :: int

text \<open>\<^verbatim>\<open>processConnectInit\<close>; the read loop and the flusher it starts are two in the wait group.\<close>

definition processConnectInit :: "env \<Rightarrow> handshake \<Rightarrow> client \<Rightarrow> go_error option client_res" where
  "processConnectInit E h c =
     go_bind (sendConnect E (hs_keys h) (hs_uuid h) (hs_now h) (c\<lparr>status := CONNECTING\<rparr>))
       (\<lambda>(c1, e). case e of
          Some err \<Rightarrow> Inr (c1, Some err)
        | None \<Rightarrow>
            let c2 = c1\<lparr>pingOut := 0\<rparr>;
                c3 = (if 0 < PingInterval (opts c2)
                      then c2\<lparr>pingIntervalTimer := Some Timer_Running\<rparr> else c2)
            in Inr (c3\<lparr>wg := wg c3 + 2\<rparr>, None))"

definition Connect :: "env \<Rightarrow> handshake \<Rightarrow> client \<Rightarrow> go_error option client_res" where
  "Connect E h c =
     go_bind (createConn (hs_dial h) c) (\<lambda>(c1, e1).
       if e1 \<noteq> None then Inr (c1, e1)
       else go_bind (processConnectInit E h (client_setup c1)) (\<lambda>(c2, e).
         if e = None then Inr (c2, None)
         else go_bind (close DISCONNECTED c2) (\<lambda>c3.
           if AutoReconn (opts c3)
           then let c4 = (client_setup c3)\<lparr>status := RECONNECTING\<rparr>
                in Inr (c4\<lparr>writer := lw_switchToPending (writer c4),
                           reconnecting_routines := Suc (reconnecting_routines c4)\<rparr>, None)
           else Inr (c3, e))))"

section \<open>Failures, pings and reconnecting\<close>

definition processOpErr :: "go_error \<Rightarrow> client \<Rightarrow> client go" where
  "processOpErr err c =
     (if isConnecting c \<or> isClosed c \<or> isReconnecting c then Inr c
      else if AutoReconn (opts c) \<and> status c = CONNECTED then
        let c1 = stopPingTimer (c\<lparr>status := RECONNECTING\<rparr>);
            c2 = (if conn c1 \<noteq> None then (close_conn c1)\<lparr>conn := None\<rparr> else c1)
        in Inr (c2\<lparr>writer := lw_switchToPending (writer c2),
                   reconnecting_routines := Suc (reconnecting_routines c2)\<rparr>)
      else close CLOSED (c\<lparr>status := DISCONNECTED, cl_err := Some err\<rparr>))"

definition processPingTimer :: "env \<Rightarrow> client \<Rightarrow> client go" where
  "processPingTimer E c =
     (if status c \<noteq> CONNECTED then Inr c
      else
        let c1 = c\<lparr>pingOut := pingOut c + 1\<rparr>
        in if MaxPingCount (opts c1) < pingOut c1 then processOpErr ErrStaleConnection c1
           else go_bind (sendPing E None c1) (\<lambda>(c2, e).
                  case pingIntervalTimer c2 of
                    None \<Rightarrow> Inl Nil_Dereference
                  | Some t \<Rightarrow> Inr (c2\<lparr>pingIntervalTimer := Some Timer_Running\<rparr>)))"

text \<open>
  \<^verbatim>\<open>doReconnect\<close>: one round of its loop from the lock after the wait to the next unlock. The
  round ends with another round to come (and whether that one first waits for the loops just
  started), with the connection restored, or with giving up.
\<close>

datatype round_end = Next_Round bool | Restored | Given_Up

definition give_up :: "client \<Rightarrow> (client \<times> round_end) go" where
  "give_up c =
     go_bind (close CLOSED
        (c\<lparr>cl_err := (case cl_err c of None \<Rightarrow> Some ErrNoServers | Some e \<Rightarrow> Some e)\<rparr>))
       (\<lambda>c1. Inr (c1\<lparr>reconnecting_routines := reconnecting_routines c1 - 1\<rparr>, Given_Up))"

definition reconnect_round :: "env \<Rightarrow> handshake \<Rightarrow> client \<Rightarrow> round_end client_res" where
  "reconnect_round E h c =
     (if isClosed c then give_up c
      else go_bind (createConn (hs_dial h) c) (\<lambda>(c1, e1).
        if e1 \<noteq> None then Inr (c1\<lparr>cl_err := None\<rparr>, Next_Round False)
        else go_bind (processConnectInit E h (c1\<lparr>Reconnects := Reconnects c1 + 1\<rparr>)) (\<lambda>(c2, e).
          let c3 = c2\<lparr>cl_err := e\<rparr>
          in if e \<noteq> None then
               (if abortReconnect c3 then give_up c3
                else Inr (c3\<lparr>status := RECONNECTING\<rparr>, Next_Round False))
             else go_bind (writer_op (lw_flushPendingBuffer io_Write) c3) (\<lambda>(c4, e4).
               let c5 = c4\<lparr>cl_err := e4\<rparr>
               in if e4 \<noteq> None
                  then Inr (stopPingTimer (c5\<lparr>status := RECONNECTING\<rparr>), Next_Round True)
                  else Inr (c5\<lparr>writer := lw_doneWithPending (writer c5), status := CONNECTED,
                               reconnecting_routines := reconnecting_routines c5 - 1\<rparr>,
                            Restored)))))"

text \<open>The whole call over a script of handshakes: \<open>None\<close> when the script ends before the loop.\<close>

fun reconnect_loop :: "env \<Rightarrow> handshake list \<Rightarrow> client \<Rightarrow> round_end client_res option" where
  "reconnect_loop E [] c = None"
| "reconnect_loop E (h # hs) c =
     (case reconnect_round E h c of
        Inl p \<Rightarrow> Some (Inl p)
      | Inr (c1, r) \<Rightarrow>
          (case r of Next_Round w \<Rightarrow> reconnect_loop E hs c1 | _ \<Rightarrow> Some (Inr (c1, r))))"

text \<open>
  The token that \<^verbatim>\<open>waitForExits\<close> sends before it waits for the wait group, the loop, and the
  \<^verbatim>\<open>Flush\<close> (with its channel \<open>ch\<close>) that ends a successful call.
\<close>

definition waitForExits_kick :: "client \<Rightarrow> client" where
  "waitForExits_kick c = kickFlusher c"

definition doReconnect ::
    "env \<Rightarrow> handshake list \<Rightarrow> nat \<Rightarrow> client \<Rightarrow> round_end client_res option" where
  "doReconnect E hs ch c =
     (case reconnect_loop E hs ((waitForExits_kick c)\<lparr>cl_err := None\<rparr>) of
        None \<Rightarrow> None
      | Some (Inl p) \<Rightarrow> Some (Inl p)
      | Some (Inr (c1, r)) \<Rightarrow>
          (if r = Restored
           then Some (go_bind (Flush E ch c1) (\<lambda>(c2, w). Inr (c2, Restored)))
           else Some (Inr (c1, r))))"

section \<open>The flusher\<close>

text \<open>One round of the flusher after it has taken a token: \<open>True\<close> when it goes on, otherwise it
  leaves the wait group. \<open>fconn\<close> is the connection it was started for.\<close>

definition flusher_round :: "nat option \<Rightarrow> client \<Rightarrow> bool client_res" where
  "flusher_round fconn c =
     (if \<not> isConnected c \<or> isConnecting c \<or> fconn \<noteq> conn c
      then Inr (c\<lparr>wg := wg c - 1\<rparr>, False)
      else if 0 < lw_buffered (writer c) then
        go_bind (writer_op (lw_flush io_Write) c) (\<lambda>(c1, e).
          Inr (c1\<lparr>cl_err := (case e of None \<Rightarrow> cl_err c1
                             | Some err \<Rightarrow> (if cl_err c1 = None then Some err else cl_err c1))\<rparr>,
               True))
      else Inr (c, True))"

section \<open>Receiving\<close>

text \<open>The callbacks that the application sets; \<open>'a\<close> is the application's own state.\<close>

record 'a callbacks =
  onRecv :: "(RecvPacket \<Rightarrow> 'a \<Rightarrow> 'a \<times> go_error option) option"
  onSendack :: "(SendackPacket \<Rightarrow> 'a \<Rightarrow> 'a) option"

definition handleSendackPacket :: "'a callbacks \<Rightarrow> SendackPacket \<Rightarrow> 'a \<Rightarrow> 'a" where
  "handleSendackPacket cb packet a = (case onSendack cb of None \<Rightarrow> a | Some f \<Rightarrow> f packet a)"

text \<open>The callback's part of \<^verbatim>\<open>handleRecvPacket\<close>; a payload that does not decrypt panics.\<close>

definition deliver ::
    "env \<Rightarrow> 'a callbacks \<Rightarrow> RecvPacket \<Rightarrow> client \<Rightarrow> 'a \<Rightarrow> ('a \<times> go_error option) go" where
  "deliver E cb packet c a =
     (case onRecv cb of
        None \<Rightarrow> Inr (a, None)
      | Some f \<Rightarrow>
          if rp_NoEncrypt packet then Inr (f packet a)
          else case AesDecrypt E (rp_Payload packet) (aesKey c) (salt c) of
                 Inl e \<Rightarrow> Inl Explicit_Panic
               | Inr payload \<Rightarrow> Inr (f (packet\<lparr>rp_Payload := payload\<rparr>) a))"

definition handleRecvPacket ::
    "env \<Rightarrow> 'a callbacks \<Rightarrow> RecvPacket \<Rightarrow> client \<Rightarrow> 'a \<Rightarrow> 'a client_res" where
  "handleRecvPacket E cb packet c a =
     go_bind (deliver E cb packet c a) (\<lambda>(a1, err).
       if err = None
       then go_bind (sendPacket E (Recvack_Frame (rp_Framer packet) (rp_MessageID packet)
                                     (rp_MessageSeq packet)) c)
              (\<lambda>(c1, e1). Inr (c1, a1))
       else Inr (c, a1))"

definition handlePacket :: "env \<Rightarrow> 'a callbacks \<Rightarrow> frame \<Rightarrow> client \<Rightarrow> 'a \<Rightarrow> 'a client_res" where
  "handlePacket E cb frm c a =
     (let c1 = c\<lparr>InBytes := InBytes c + of_nat (GetFrameSize E frm), InMsgs := InMsgs c + 1\<rparr>
      in case frm of
           Sendack_Frame p \<Rightarrow> Inr (c1, handleSendackPacket cb p a)
         | Recv_Frame p \<Rightarrow> handleRecvPacket E cb p c1 a
         | Pong_Frame \<Rightarrow> Inr (handlePong c1, a)
         | _ \<Rightarrow> Inr (c1, a))"

fun handlePackets :: "env \<Rightarrow> 'a callbacks \<Rightarrow> frame list \<Rightarrow> client \<Rightarrow> 'a \<Rightarrow> 'a client_res" where
  "handlePackets E cb [] c a = Inr (c, a)"
| "handlePackets E cb (f # fs) c a =
     go_bind (handlePacket E cb f c a) (\<lambda>(c1, a1). handlePackets E cb fs c1 a1)"

text \<open>
  \<^verbatim>\<open>handlePacketDatas\<close>: all packets are decoded first, then handled. A decoder that reports size 0
  makes the first loop run for ever, so its rounds are bounded by fuel.
\<close>

fun decode_packets ::
    "nat \<Rightarrow> env \<Rightarrow> byte \<Rightarrow> bytes \<Rightarrow> nat \<Rightarrow> frame list \<Rightarrow> (go_error + frame list) option" where
  "decode_packets 0 E ver packetData offset packets = None"
| "decode_packets (Suc fuel) E ver packetData offset packets =
     (if offset < length packetData then
        (case DecodeFrame E (drop offset packetData) ver of
           Inl err \<Rightarrow> Some (Inl err)
         | Inr (packet, sz) \<Rightarrow>
             decode_packets fuel E ver packetData (offset + sz) (packets @ [packet]))
      else Some (Inr packets))"

definition handlePacketDatas ::
    "nat \<Rightarrow> env \<Rightarrow> 'a callbacks \<Rightarrow> bytes \<Rightarrow> client \<Rightarrow> 'a \<Rightarrow> ('a \<times> go_error option) client_res option"
  where
  "handlePacketDatas fuel E cb packetData c a =
     (case decode_packets fuel E (ProtoVersion (opts c)) packetData 0 [] of
        None \<Rightarrow> None
      | Some (Inl err) \<Rightarrow> Some (Inr (c, a, Some err))
      | Some (Inr packets) \<Rightarrow>
          Some (go_bind (handlePackets E cb packets c a) (\<lambda>(c1, a1). Inr (c1, a1, None))))"

text \<open>
  \<^verbatim>\<open>readLoop\<close>, over the results that its reads return (\<open>K\<close> holds the frame codes). \<open>None\<close> stands for
  a decoder that does not get on; otherwise the client, the application state, and the bytes kept
  for the next read. The loop ends with the script, when the client is closed, or after an error.
\<close>

fun readLoop ::
    "nat \<Rightarrow> env \<Rightarrow> frame_codes \<Rightarrow> 'a callbacks \<Rightarrow> read_result list \<Rightarrow> bytes \<Rightarrow> client \<Rightarrow> 'a
       \<Rightarrow> ('a \<times> bytes) client_res option" where
  "readLoop fuel E K cb [] tmpBuff c a = Some (Inr (c, a, tmpBuff))"
| "readLoop fuel E K cb ((buf, e) # rs) tmpBuff c a =
     (if isClosed c then Some (Inr (c\<lparr>wg := wg c - 1\<rparr>, a, tmpBuff))
      else if e = None \<and> length buf = 0 then readLoop fuel E K cb rs tmpBuff c a
      else case (if e = None
                 then (case read_chunk K tmpBuff buf of (packetData, tmp) \<Rightarrow>
                         (if 0 < length packetData
                          then map_option (\<lambda>r. (r, tmp)) (handlePacketDatas fuel E cb packetData c a)
                          else Some (Inr (c, a, None), tmp)))
                 else Some (Inr (c, a, e), tmpBuff)) of
        None \<Rightarrow> None
      | Some (Inl p, tmp) \<Rightarrow> Some (Inl p)
      | Some (Inr (c1, a1, None), tmp) \<Rightarrow> readLoop fuel E K cb rs tmp c1 a1
      | Some (Inr (c1, a1, Some err), tmp) \<Rightarrow>
          Some (go_bind (processOpErr err c1) (\<lambda>c2. Inr (c2\<lparr>wg := wg c2 - 1\<rparr>, a1, tmp))))"

section \<open>SendMessage\<close>

record channel =
  ChannelID :: string
  ChannelType :: byte

definition NewChannel :: "string \<Rightarrow> byte \<Rightarrow> channel" where
  "NewChannel channelID channelType = \<lparr>ChannelID = channelID, ChannelType = channelType\<rparr>"

text \<open>The packet of a message and its key; a generated one is used when the options give no number.\<close>

definition message_packet :: "sendOptions \<Rightarrow> channel \<Rightarrow> bytes \<Rightarrow> string \<Rightarrow> u64 \<Rightarrow> SendPacket" where
  "message_packet so channel newPayload uuid clientSeq =
     \<lparr>sp_Framer = \<lparr>NoPersist = so_NoPersist so, SyncOnce = so_SyncOnce so, RedDot = True\<rparr>,
      sp_NoEncrypt = so_NoEncrypt so, sp_ClientSeq = clientSeq,
      sp_ClientMsgNo = (if so_ClientMsgNo so = [] then GenUUID uuid else so_ClientMsgNo so),
      sp_ChannelID = ChannelID channel, sp_ChannelType = ChannelType channel,
      sp_Payload = newPayload, sp_MsgKey = []\<rparr>"

definition SendMessage ::
    "env \<Rightarrow> channel \<Rightarrow> bytes \<Rightarrow> sendOptions option_fn list \<Rightarrow> string \<Rightarrow> int \<Rightarrow> client
       \<Rightarrow> (go_error + SendPacket \<times> int) client_res" where
  "SendMessage E channel payload opt uuid now c =
     (let so = apply_send_options opt;
          encrypt = (\<lambda>bs. AesEncrypt E bs (aesKey c) (salt c))
      in case (if so_NoEncrypt so then Inr payload else encrypt payload) of
           Inl err \<Rightarrow> Inr (c, Inl err)
         | Inr newPayload \<Rightarrow>
             (let c1 = c\<lparr>clientIDGen := clientIDGen c + 1\<rparr>;
                  packet = message_packet so channel newPayload uuid (clientIDGen c1)
              in case (if so_NoEncrypt so then Inr []
                       else map_sum id (MD5 E) (encrypt (VerityString E packet))) of
                   Inl err \<Rightarrow> Inr (c1, Inl err)
                 | Inr key \<Rightarrow>
                     (let packet1 = packet\<lparr>sp_MsgKey := key\<rparr>
                      in go_bind (appendPacket E (Send_Frame packet1)
                                   (c1\<lparr>lastSendMsgTime := Some now\<rparr>)) (\<lambda>(c2, n, e).
                           case e of
                             Some err \<Rightarrow> Inr (c2, Inl err)
                           | None \<Rightarrow> Inr (c2, Inr (packet1, n))))))"

end
