(* ===== verification/Client_Demo.thy ===== *)
theory Client_Demo
  imports Client
begin

text \<open>
  A small instance of the third-party parameters of the client, on which the theorems about it are
  applied: a protocol of one-byte pings and pongs and length-prefixed packets, no encryption, and a
  server that accepts every connection.
\<close>

definition demo_codes :: frame_codes where
  "demo_codes = \<lparr>PING = 7, PONG = 8\<rparr>"

definition demo_env :: env where
  "demo_env =
     \<lparr>EncodeFrame = (\<lambda>f v. Inr (case f of
         Ping_Frame \<Rightarrow> [0x70]
       | Send_Frame p \<Rightarrow> 0x30 # varint_bytes (length (sp_Payload p)) @ sp_Payload p
       | _ \<Rightarrow> [0x10, 0])),
      DecodeFrame = (\<lambda>bs v. case bs of
         [] \<Rightarrow> Inl (Err_External 0)
       | b # rest \<Rightarrow>
           if drop_bit 4 b = PING demo_codes then Inr (Ping_Frame, 1)
           else if drop_bit 4 b = PONG demo_codes then Inr (Pong_Frame, 1)
           else (case decodeLength rest of (n, k, ok) \<Rightarrow> Inr (Other_Frame (unat b), 1 + k + nat n))),
      DecodePacketWithConn = (\<lambda>cn v. (cn, Inr (Connack_Frame
         \<lparr>ca_Salt = ''salt'', ca_ServerKey = b64_EncodeToString (replicate 32 7),
          ca_ReasonCode = 1\<rparr>))),
      GetFrameSize = (\<lambda>f. 2), ReasonSuccess = 1, VerityString = sp_Payload,
      AesEncrypt = (\<lambda>bs k s. Inr bs), AesDecrypt = (\<lambda>bs k s. Inr bs),
      MD5 = (\<lambda>bs. replicate 32 (CHR ''a'')), Curve25519Key = map2 (+)\<rparr>"

definition demo_conn :: conn where
  "demo_conn = \<lparr>c_wire = [], c_faults = [], c_inbox = [], c_closed = False\<rparr>"

definition demo_handshake :: handshake where
  "demo_handshake =
     \<lparr>hs_dial = (\<lambda>network address. Inr demo_conn), hs_keys = (replicate 32 1, replicate 32 2),
      hs_uuid = ''device'', hs_now = 0\<rparr>"

definition demo_options :: copts where
  "demo_options = fst (WithAutoReconn True (NewOptions 4))"

definition demo_client :: client where
  "demo_client = fresh_client ''tcp://127.0.0.1:5100'' demo_options"

text \<open>The client once its connection is made.\<close>

definition demo_up :: client where
  "demo_up = (case Connect demo_env demo_handshake demo_client of
     Inr (c, e) \<Rightarrow> c | Inl p \<Rightarrow> demo_client)"

lemma demo_Connect:
  "case Connect demo_env demo_handshake demo_client of
     Inr (c, e) \<Rightarrow> e = None \<and> status c = CONNECTED \<and> conn c \<noteq> None \<and>
       lw_w (writer c) = Some (Conn_Writer (demo_conn\<lparr>c_wire := [0x10, 0]\<rparr>)) \<and>
       lw_pending (writer c) = None \<and> lw_bufs (writer c) = [] \<and> pongs c = Some [] \<and>
       signalled c = [] \<and> pingOut c = 0 \<and> length (aesKey c) = 16 \<and>
       opts c = demo_options
   | Inl p \<Rightarrow> False"
  by code_simp

lemma demo_Connect_eq: "Connect demo_env demo_handshake demo_client = Inr (demo_up, None)"
  using demo_Connect unfolding demo_up_def
  by (cases "Connect demo_env demo_handshake demo_client") auto

lemma demo_up_simps:
  "status demo_up = CONNECTED" "conn demo_up \<noteq> None" 
  "lw_w (writer demo_up) = Some (Conn_Writer (demo_conn\<lparr>c_wire := [0x10, 0]\<rparr>))"
  "lw_pending (writer demo_up) = None" "lw_bufs (writer demo_up) = []" "pongs demo_up = Some []"
  "signalled demo_up = []" "pingOut demo_up = 0" "length (aesKey demo_up) = 16"
  "opts demo_up = demo_options"
  using demo_Connect unfolding demo_Connect_eq by simp_all

lemma demo_New: "New 4 ''tcp://127.0.0.1:5100'' [Some (WithAutoReconn True), None] = Inr demo_client"
  by (simp add: New_def demo_client_def demo_options_def WithAutoReconn_def)

end
