(* ===== verification/Client_Lifecycle.thy ===== *)
theory Client_Lifecycle
  imports Client_Demo
begin

text \<open>
  The life of a client: its operations interleaved as a step relation, the invariant that every
  operation keeps, and what follows for panics, the reconnect loop, the ping watchdog and the
  matching of pongs with pings.
\<close>

section \<open>What the writer operations keep\<close>

lemma lw_flush_keeps:
  assumes "lw_flush wr lw = Inr (lw', e)"
  shows "lw_pending lw' = lw_pending lw \<and> (lw_w lw' = None \<longleftrightarrow> lw_w lw = None)"
  using assms by (auto simp: lw_flush_def split: if_splits option.splits prod.splits)

lemma lw_append_keeps:
  assumes "lw_appendBufs wr lw bs = Inr (lw', e)"
  shows "(lw_pending lw' = None \<longleftrightarrow> lw_pending lw = None) \<and> (lw_w lw' = None \<longleftrightarrow> lw_w lw = None)"
proof (cases "lw_pending lw")
  case None
  with assms lw_flush_keeps show ?thesis
    by (fastforce simp: lw_appendBufs_def foldl_append1_online Let_def split: if_splits)
next
  case (Some p)
  with assms show ?thesis
    by (auto simp: lw_appendBufs_def foldl_append1_pending Let_def)
qed

lemma lw_direct_keeps:
  assumes "lw_writeDirect wr lw d = Inr (lw', e)"
  shows "lw_pending lw' = lw_pending lw \<and> (lw_w lw' = None \<longleftrightarrow> lw_w lw = None)"
  using assms by (auto simp: lw_writeDirect_def split: option.splits prod.splits)

lemma lw_flushPending_keeps:
  assumes "lw_flushPendingBuffer wr lw = Inr (lw', e)"
  shows "(lw_pending lw' = None \<longleftrightarrow> lw_pending lw = None) \<and> (lw_w lw' = None \<longleftrightarrow> lw_w lw = None)"
  using assms by (auto simp: lw_flushPendingBuffer_def split: option.splits if_splits prod.splits)

lemmas lw_keeps = lw_flush_keeps lw_append_keeps lw_direct_keeps lw_flushPending_keeps

lemma lw_no_panic:
  assumes "lw_w lw \<noteq> None"
  shows "lw_flush wr lw \<noteq> Inl p" "lw_writeDirect wr lw d \<noteq> Inl p"
    "lw_flushPendingBuffer wr lw \<noteq> Inl p" "lw_appendBufs wr lw bs \<noteq> Inl p"
proof -
  have fl: "lw_flush wr l \<noteq> Inl p" if "lw_w l \<noteq> None" for l
    using that by (auto simp: lw_flush_def split: option.splits prod.splits)
  show "lw_flush wr lw \<noteq> Inl p" by (rule fl [OF assms])
  show "lw_writeDirect wr lw d \<noteq> Inl p" "lw_flushPendingBuffer wr lw \<noteq> Inl p"
    using assms
    by (auto simp: lw_writeDirect_def lw_flushPendingBuffer_def split: option.splits prod.splits)
  have "lw_w (foldl lw_append1 lw bs) = lw_w lw"
    by (induction bs arbitrary: lw) (auto simp: lw_append1_def split: option.splits)
  with assms fl show "lw_appendBufs wr lw bs \<noteq> Inl p"
    by (auto simp: lw_appendBufs_def Let_def)
qed

section \<open>The invariant\<close>

text \<open>The part of the state that the invariant speaks about.\<close>

record shape =
  sh_status :: status
  sh_auto :: bool
  sh_ping :: int
  sh_conn :: bool
  sh_w :: bool
  sh_pending :: bool
  sh_timer :: bool
  sh_chan :: bool
  sh_routines :: nat
  sh_abort :: bool

definition shape_of :: "client \<Rightarrow> shape" where
  "shape_of c =
     \<lparr>sh_status = status c, sh_auto = AutoReconn (opts c), sh_ping = PingInterval (opts c),
      sh_conn = (conn c \<noteq> None), sh_w = (lw_w (writer c) \<noteq> None),
      sh_pending = (lw_pending (writer c) \<noteq> None), sh_timer = (pingIntervalTimer c \<noteq> None),
      sh_chan = (flusherExitChan c \<noteq> None), sh_routines = reconnecting_routines c,
      sh_abort = abortReconnect c\<rparr>"

text \<open>
  Between two critical sections: no connection attempt is under way; a connected client has a
  connection, the channel of its flusher and, with a ping interval, its timer, and writes to the
  connection; a reconnecting client collects its output and has exactly one reconnect loop; such a
  loop runs in no other case but after a close; a client without automatic reconnecting never
  collects output; and nothing ever asks a reconnect loop to abort.
\<close>

definition shape_inv :: "shape \<Rightarrow> bool" where
  "shape_inv s \<longleftrightarrow>
     sh_status s \<noteq> CONNECTING \<and> \<not> sh_abort s \<and>
     (sh_conn s \<longrightarrow> sh_w s) \<and>
     (sh_status s = CONNECTED \<longrightarrow>
        sh_conn s \<and> \<not> sh_pending s \<and> sh_chan s \<and> (0 < sh_ping s \<longrightarrow> sh_timer s)) \<and>
     (sh_status s = RECONNECTING \<longrightarrow> sh_pending s \<and> sh_routines s = 1) \<and>
     (sh_pending s \<longrightarrow> sh_auto s \<and> (sh_status s = RECONNECTING \<or> sh_status s = CLOSED)) \<and>
     (0 < sh_routines s \<longrightarrow> sh_pending s \<and> sh_chan s \<and> sh_routines s = 1)"

definition client_inv :: "client \<Rightarrow> bool" where
  "client_inv c \<longleftrightarrow> shape_inv (shape_of c)"

lemma shape_of_eqD:
  assumes "shape_of c' = shape_of c"
  shows "status c' = status c" and "AutoReconn (opts c') = AutoReconn (opts c)"
    and "conn c' = None \<longleftrightarrow> conn c = None" and "lw_w (writer c') = None \<longleftrightarrow> lw_w (writer c) = None"
    and "lw_pending (writer c') = None \<longleftrightarrow> lw_pending (writer c) = None"
    and "pingIntervalTimer c' = None \<longleftrightarrow> pingIntervalTimer c = None"
    and "reconnecting_routines c' = reconnecting_routines c"
  using assms by (simp_all add: shape_of_def del: not_None_eq)

lemma writer_op_shape:
  assumes "writer_op f c = Inr (c', e)"
    and "\<And>w w' e. f w = Inr (w', e) \<Longrightarrow>
           (lw_pending w' = None \<longleftrightarrow> lw_pending w = None) \<and> (lw_w w' = None \<longleftrightarrow> lw_w w = None)"
  shows "shape_of c' = shape_of c"
proof -
  from assms(1) obtain w' where "f (writer c) = Inr (w', e)" and c': "c' = c\<lparr>writer := w'\<rparr>"
    by (auto simp: writer_op_def go_bind_Inr_conv)
  with assms(2) have "(lw_pending w' = None \<longleftrightarrow> lw_pending (writer c) = None) \<and>
      (lw_w w' = None \<longleftrightarrow> lw_w (writer c) = None)" by blast
  with c' show ?thesis by (simp add: shape_of_def)
qed

lemma flush_shape: "writer_op (lw_flush io_Write) c = Inr (c', e) \<Longrightarrow> shape_of c' = shape_of c"
  by (erule writer_op_shape) (auto dest: lw_flush_keeps)

lemma append_shape:
  "writer_op (\<lambda>w. lw_appendBufs io_Write w bs) c = Inr (c', e) \<Longrightarrow> shape_of c' = shape_of c"
  by (erule writer_op_shape) (auto dest: lw_append_keeps)

lemma direct_shape:
  "writer_op (\<lambda>w. lw_writeDirect io_Write w d) c = Inr (c', e) \<Longrightarrow> shape_of c' = shape_of c"
  by (erule writer_op_shape) (auto dest: lw_direct_keeps)

lemma flushPending_shape:
  "writer_op (lw_flushPendingBuffer io_Write) c = Inr (c', e) \<Longrightarrow> shape_of c' = shape_of c"
  by (erule writer_op_shape) (auto dest: lw_flushPending_keeps)

lemmas writer_shapes = flush_shape append_shape direct_shape flushPending_shape

lemma writer_op_others:
  assumes "writer_op f c = Inr (c', e)"
  shows "\<exists>w. c' = c\<lparr>writer := w\<rparr>"
  using assms by (auto simp: writer_op_def go_bind_Inr_conv)

lemma writer_op_no_panic: "(\<And>p. f (writer c) \<noteq> Inl p) \<Longrightarrow> writer_op f c \<noteq> Inl p"
  by (auto simp: writer_op_def go_bind_Inl_conv)

lemma shape_stop: "shape_of (stopPingTimer c) = shape_of c"
  by (simp add: shape_of_def stopPingTimer_def)

lemma shape_kick: "shape_of (kickFlusher c) = shape_of c"
  by (simp add: shape_of_def kickFlusher_def)

lemma shape_close_conn: "shape_of (close_conn c) = shape_of c"
  by (simp add: shape_of_def close_conn_def)

lemma sendPacket_shape: "sendPacket E f c = Inr (c', e) \<Longrightarrow> shape_of c' = shape_of c"
  by (auto simp: sendPacket_def shape_of_def split: sum.splits dest!: writer_shapes)

lemma appendPacket_shape: "appendPacket E f c = Inr (c', r) \<Longrightarrow> shape_of c' = shape_of c"
  by (auto simp: appendPacket_def go_bind_Inr_conv shape_kick split: sum.splits option.splits
        if_splits dest!: writer_shapes) (auto simp: shape_of_def kickFlusher_def)

lemma sendPing_shape: "sendPing E ch c = Inr (c', e) \<Longrightarrow> shape_of c' = shape_of c"
  by (auto simp: sendPing_def go_bind_Inr_conv Let_def split: sum.splits option.splits
        dest!: writer_shapes) (auto simp: shape_of_def)

lemma sendPing_no_panic:
  assumes "lw_w (writer c) \<noteq> None"
  shows "sendPing E ch c \<noteq> Inl p"
proof
  assume "sendPing E ch c = Inl p"
  then obtain data where
    "writer_op (\<lambda>w. lw_appendBufs io_Write w [data]) (c\<lparr>pongs := Some ((case pongs c of None \<Rightarrow> []
        | Some ps \<Rightarrow> ps) @ [ch])\<rparr>) = Inl p
     \<or> (\<exists>c2. writer_op (\<lambda>w. lw_appendBufs io_Write w [data])
          (c\<lparr>pongs := Some ((case pongs c of None \<Rightarrow> [] | Some ps \<Rightarrow> ps) @ [ch])\<rparr>) = Inr (c2, None)
        \<and> writer_op (lw_flush io_Write) c2 = Inl p)"
    by (auto simp: sendPing_def Let_def go_bind_Inl_conv split: sum.splits option.splits)
  then show False
  proof (elim disjE exE conjE)
    fix c2
    assume a: "writer_op (\<lambda>w. lw_appendBufs io_Write w [data])
          (c\<lparr>pongs := Some ((case pongs c of None \<Rightarrow> [] | Some ps \<Rightarrow> ps) @ [ch])\<rparr>) = Inr (c2, None)"
      and f: "writer_op (lw_flush io_Write) c2 = Inl p"
    have "lw_w (writer c2) \<noteq> None"
      using arg_cong [OF append_shape [OF a], of sh_w] assms by (simp add: shape_of_def)
    with f lw_no_panic(1) [of "writer c2" io_Write p] show False
      by (auto simp: writer_op_def go_bind_Inl_conv)
  qed (use assms lw_no_panic(4) [of "writer c" io_Write "[data]" p] in \<open>auto simp: writer_op_def go_bind_Inl_conv\<close>)
qed

section \<open>What every operation does to the shape\<close>

lemma close_cleanup_simps [simp]:
  "conn (close_cleanup c) = conn c" "abortReconnect (close_cleanup c) = abortReconnect c"
  "writer (close_cleanup c) = writer c" "pongs (close_cleanup c) = pongs c"
  "opts (close_cleanup c) = opts c"
  by (simp_all add: close_cleanup_def stopPingTimer_def kickFlusher_def)

lemma close_cleanup_shape:
  "shape_of (close_cleanup c) = (shape_of c)\<lparr>sh_status := CLOSED, sh_timer := False\<rparr>"
  by (simp add: close_cleanup_def shape_of_def stopPingTimer_def kickFlusher_def)

lemma close_shape:
  assumes "close st c = Inr c'"
  shows "shape_of c' = (shape_of c)\<lparr>sh_status := st, sh_timer := (isClosed c \<and> sh_timer (shape_of c)),
    sh_conn := (sh_conn (shape_of c) \<and> (isClosed c \<or> \<not> abortReconnect c))\<rparr>"
proof (cases "isClosed c")
  case True
  with assms show ?thesis by (auto simp: close_def shape_of_def)
next
  case False
  note cu = close_cleanup_shape [of c]
  have st: "shape_of (x\<lparr>status := st\<rparr>) = (shape_of x)\<lparr>sh_status := st\<rparr>" for x
    by (simp add: shape_of_def)
  consider (abort) "abortReconnect c" "conn c \<noteq> None" | (flush) "\<not> abortReconnect c" "conn c \<noteq> None"
    | (nil) "conn c = None" by blast
  then show ?thesis
  proof cases
    case flush
    with assms False obtain c3 e where f: "writer_op (lw_flush io_Write) (close_cleanup c) = Inr (c3, e)"
      and c': "c' = close_conn (c3\<lparr>status := st\<rparr>)"
      by (auto simp: close_def go_bind_Inr_conv)
    have "shape_of c' = (shape_of (close_cleanup c))\<lparr>sh_status := st\<rparr>"
      by (simp add: c' shape_close_conn st flush_shape [OF f])
    with flush False show ?thesis unfolding cu by (simp add: shape_of_def)
  next
    case abort
    with assms False have "c' = (close_conn (close_cleanup c))\<lparr>conn := None, status := st\<rparr>"
      by (simp add: close_def)
    then have "shape_of c' = (shape_of (close_cleanup c))\<lparr>sh_status := st, sh_conn := False\<rparr>"
      by (simp add: shape_of_def close_conn_def)
    with abort False show ?thesis by (simp add: cu)
  next
    case nil
    with assms False have "c' = (close_cleanup c)\<lparr>status := st\<rparr>" by (simp add: close_def)
    then have "shape_of c' = (shape_of (close_cleanup c))\<lparr>sh_status := st\<rparr>" by (simp only: st)
    with nil False show ?thesis unfolding cu by (simp add: shape_of_def)
  qed
qed

lemma close_no_panic:
  assumes "conn c \<noteq> None \<longrightarrow> lw_w (writer c) \<noteq> None"
  shows "close st c \<noteq> Inl p"
proof
  assume "close st c = Inl p"
  then have "conn c \<noteq> None" and "lw_flush io_Write (writer c) = Inl p"
    by (auto simp: close_def Let_def go_bind_Inl_conv writer_op_def split: if_splits)
  with assms lw_no_panic(1) [of "writer c" io_Write p] show False by simp
qed

lemma finish_handshake_shape:
  assumes "finish_handshake E k a c = Inr (c', e)"
  shows "shape_of c' = (if e = None then (shape_of c)\<lparr>sh_status := CONNECTED\<rparr> else shape_of c)"
  using assms
  by (auto simp: finish_handshake_def shape_of_def go_bind_Inr_conv Let_def
      split: if_splits option.splits)

lemma receive_connack_shape:
  assumes "receive_connack E k c = Inr (c', e)"
  shows "shape_of c' = (if e = None then (shape_of c)\<lparr>sh_status := CONNECTED\<rparr> else shape_of c)"
proof -
  obtain w cn q where w: "lw_w (writer c) = Some w"
    and q: "DecodePacketWithConn E (io_conn w) (ProtoVersion (opts c)) = (cn, q)"
    using assms by (auto simp: receive_connack_def split: option.splits prod.splits)
  let ?c2 = "c\<lparr>writer := (writer c)\<lparr>lw_w := Some (set_io_conn cn w)\<rparr>\<rparr>"
  have c2: "shape_of ?c2 = shape_of c" using w by (simp add: shape_of_def)
  show ?thesis
  proof (cases "\<exists>a. q = Inr (Connack_Frame a)")
    case True
    then obtain a where a: "finish_handshake E k a ?c2 = Inr (c', e)"
      using assms w q by (auto simp: receive_connack_def Let_def)
    show ?thesis using finish_handshake_shape [OF a] c2 by simp
  next
    case False
    then have "c' = ?c2 \<and> e \<noteq> None"
      using assms w q by (auto simp: receive_connack_def Let_def split: sum.splits frame.splits)
    with c2 show ?thesis by auto
  qed
qed

lemma sendConnect_shape:
  assumes "sendConnect E kp uuid now c = Inr (c', e)"
  shows "shape_of c' = (if e = None then (shape_of c)\<lparr>sh_status := CONNECTED\<rparr> else shape_of c)"
proof -
  obtain k1 k2 where kp: "kp = (k1, k2)" by (cases kp)
  obtain f x where s: "sendPacket E f c = Inr x"
    and r: "(case x of (c1, e) \<Rightarrow> if e \<noteq> None then Inr (c1, e) else receive_connack E k1 c1)
      = Inr (c', e)"
    using assms unfolding sendConnect_def kp prod.case Let_def go_bind_Inr_conv by blast
  obtain c1 e1 where x: "x = (c1, e1)" by (cases x)
  with s have "shape_of c1 = shape_of c" using sendPacket_shape by blast
  with r x receive_connack_shape [of E k1 c1 c' e] show ?thesis
    by (auto split: if_splits)
qed

lemma processConnectInit_shape:
  assumes "processConnectInit E h c = Inr (c', e)"
  shows "shape_of c' = (if e = None
    then (shape_of c)\<lparr>sh_status := CONNECTED,
           sh_timer := (sh_timer (shape_of c) \<or> 0 < sh_ping (shape_of c))\<rparr>
    else (shape_of c)\<lparr>sh_status := CONNECTING\<rparr>)"
proof -
  obtain c1 e1 where s: "sendConnect E (hs_keys h) (hs_uuid h) (hs_now h) (c\<lparr>status := CONNECTING\<rparr>)
      = Inr (c1, e1)"
    and r: "(e1 \<noteq> None \<longrightarrow> c' = c1 \<and> e = e1) \<and> (e1 = None \<longrightarrow> e = None \<and>
      c' = (let c3 = (if 0 < PingInterval (opts c1)
                      then c1\<lparr>pingOut := 0, pingIntervalTimer := Some Timer_Running\<rparr>
                      else c1\<lparr>pingOut := 0\<rparr>) in c3\<lparr>wg := wg c3 + 2\<rparr>))"
    using assms
    by (auto simp: processConnectInit_def go_bind_Inr_conv Let_def split: option.splits if_splits)
  have c: "shape_of (c\<lparr>status := CONNECTING\<rparr>) = (shape_of c)\<lparr>sh_status := CONNECTING\<rparr>"
    by (simp add: shape_of_def)
  show ?thesis
  proof (cases e1)
    case None
    with sendConnect_shape [OF s] c have c1: "shape_of c1 = (shape_of c)\<lparr>sh_status := CONNECTED\<rparr>"
      by simp
    then have "PingInterval (opts c1) = sh_ping (shape_of c)"
      by (simp add: shape_of_def)
    moreover have "shape_of c' = (if 0 < PingInterval (opts c1)
        then (shape_of c1)\<lparr>sh_timer := True\<rparr> else shape_of c1)"
      using r None by (simp add: shape_of_def Let_def)
    ultimately show ?thesis using r None c1 by simp
  next
    case (Some err)
    with sendConnect_shape [OF s] c r show ?thesis by simp
  qed
qed

lemma createConn_cases:
  assumes "createConn dial c = Inr (c', e)"
  obtains (fail) err where "c' = c" and "e = Some err"
  | (ok) cn where "e = None"
      and "c' = bindToNewConn cn (c\<lparr>conn := Some (next_conn c), next_conn := Suc (next_conn c)\<rparr>)"
proof -
  obtain n a q where "(case dial n a of Inl err \<Rightarrow> Inr (c, Some err)
      | Inr cn \<Rightarrow> Inr (bindToNewConn cn (c\<lparr>conn := Some (next_conn c),
          next_conn := Suc (next_conn c)\<rparr>), None)) = (Inr (c', e) :: go_error option client_res)"
    using assms by (auto simp: createConn_def go_bind_Inr_conv)
  then show thesis by (cases "dial n a") (auto intro: that)
qed

lemma createConn_shape:
  assumes "createConn dial c = Inr (c', e)"
  shows "shape_of c' = (if e = None then (shape_of c)\<lparr>sh_conn := True, sh_w := True\<rparr>
                        else shape_of c)"
  using assms by (cases rule: createConn_cases)
    (auto simp: bindToNewConn_def lw_bind_def shape_of_def)

section \<open>Every operation keeps the invariant\<close>

lemma client_inv_shape: "shape_of c' = shape_of c \<Longrightarrow> client_inv c \<Longrightarrow> client_inv c'"
  by (simp add: client_inv_def)

lemma shape_status [simp]:
  "sh_status (shape_of c) = status c" "sh_auto (shape_of c) = AutoReconn (opts c)"
  "sh_conn (shape_of c) \<longleftrightarrow> conn c \<noteq> None" "sh_w (shape_of c) \<longleftrightarrow> lw_w (writer c) \<noteq> None"
  "sh_pending (shape_of c) \<longleftrightarrow> lw_pending (writer c) \<noteq> None"
  "sh_routines (shape_of c) = reconnecting_routines c"
  "sh_timer (shape_of c) \<longleftrightarrow> pingIntervalTimer c \<noteq> None"
  "sh_chan (shape_of c) \<longleftrightarrow> flusherExitChan c \<noteq> None" "sh_ping (shape_of c) = PingInterval (opts c)"
  "sh_abort (shape_of c) = abortReconnect c"
  by (simp_all add: shape_of_def)

lemma fresh_client_inv: "client_inv (fresh_client a o1)"
  by (simp add: client_inv_def shape_inv_def fresh_client_def)

text \<open>Closing to \<open>CLOSED\<close> keeps the invariant also from the states in which the code calls it.\<close>

lemma close_inv:
  assumes "close CLOSED c = Inr c'" and "shape_inv ((shape_of c)\<lparr>sh_status := CLOSED\<rparr>)"
  shows "client_inv c'"
  using assms(2) unfolding client_inv_def close_shape [OF assms(1)]
  by (auto simp: shape_inv_def)

lemma closed_shape: "shape_inv s \<Longrightarrow> shape_inv (s\<lparr>sh_status := CLOSED\<rparr>)"
  by (auto simp: shape_inv_def)

lemma Close_inv: "client_inv c \<Longrightarrow> Close c = Inr c' \<Longrightarrow> client_inv c'"
  unfolding Close_def using closed_shape by (auto simp: client_inv_def dest!: close_inv)

lemma processOpErr_cases:
  assumes "processOpErr err c = Inr c'"
  obtains (skip) "isConnecting c \<or> isClosed c \<or> isReconnecting c" and "c' = c"
  | (retry) "status c = CONNECTED" and "AutoReconn (opts c)"
      and "shape_of c' = (shape_of c)\<lparr>sh_status := RECONNECTING, sh_conn := False,
        sh_pending := True, sh_routines := Suc (reconnecting_routines c)\<rparr>"
  | (plain) tm cn where "\<not> (isConnecting c \<or> isClosed c \<or> isReconnecting c)"
      and "\<not> (AutoReconn (opts c) \<and> status c = CONNECTED)"
      and "shape_of c' = (shape_of c)\<lparr>sh_status := CLOSED, sh_timer := tm, sh_conn := cn\<rparr>"
      and "cn \<longrightarrow> sh_conn (shape_of c)"
proof -
  consider (A) "isConnecting c \<or> isClosed c \<or> isReconnecting c"
    | (B) "status c = CONNECTED" "AutoReconn (opts c)"
    | (C) "\<not> (isConnecting c \<or> isClosed c \<or> isReconnecting c)"
        "\<not> (AutoReconn (opts c) \<and> status c = CONNECTED)"
    by (cases "status c") (auto simp: isConnecting_def isClosed_def isReconnecting_def)
  then show thesis
  proof cases
    case A
    with assms show thesis by (intro skip) (simp_all add: processOpErr_def)
  next
    case B
    then have "shape_of c' = (shape_of c)\<lparr>sh_status := RECONNECTING, sh_conn := False,
        sh_pending := True, sh_routines := Suc (reconnecting_routines c)\<rparr>"
      using assms
      by (cases "conn c") (auto simp: processOpErr_def isConnecting_def isClosed_def
          isReconnecting_def shape_of_def Let_def stopPingTimer_def close_conn_def
          lw_switchToPending_def)
    with B show thesis by (rule retry)
  next
    case C
    let ?c1 = "c\<lparr>status := DISCONNECTED, cl_err := Some err\<rparr>"
    have cl: "close CLOSED ?c1 = Inr c'" using C assms by (auto simp: processOpErr_def)
    have c1: "shape_of ?c1 = (shape_of c)\<lparr>sh_status := DISCONNECTED\<rparr>" by (simp add: shape_of_def)
    show thesis
      by (rule plain [OF C, where tm = "isClosed ?c1 \<and> sh_timer (shape_of c)"
            and cn = "sh_conn (shape_of c) \<and> (isClosed ?c1 \<or> \<not> abortReconnect c)"])
        (simp_all add: close_shape [OF cl, unfolded c1] isClosed_def)
  qed
qed

lemma processOpErr_inv:
  assumes "client_inv c" and "processOpErr err c = Inr c'"
  shows "client_inv c'"
  using assms(2)
proof (cases rule: processOpErr_cases)
  case skip
  with assms(1) show ?thesis by simp
next
  case retry
  with assms(1) show ?thesis by (auto simp: client_inv_def shape_inv_def)
next
  case (plain tm cn)
  have "shape_inv ((shape_of c)\<lparr>sh_status := CLOSED\<rparr>)"
    using assms(1) closed_shape by (simp add: client_inv_def)
  with plain(4) show ?thesis unfolding client_inv_def plain(3) by (auto simp: shape_inv_def)
qed

lemma processPingTimer_cases:
  assumes "processPingTimer E c = Inr c'"
  obtains (skip) "status c \<noteq> CONNECTED" and "c' = c"
  | (stale) "status c = CONNECTED" and "processOpErr ErrStaleConnection (c\<lparr>pingOut := pingOut c + 1\<rparr>) = Inr c'"
  | (ping) "status c = CONNECTED" and "shape_of c' = shape_of c"
proof -
  let ?c1 = "c\<lparr>pingOut := pingOut c + 1\<rparr>"
  consider (A) "status c \<noteq> CONNECTED"
    | (B) "status c = CONNECTED" "MaxPingCount (opts c) < pingOut c + 1"
    | (C) "status c = CONNECTED" "\<not> MaxPingCount (opts c) < pingOut c + 1" by blast
  then show thesis
  proof cases
    case A
    with assms show thesis by (intro skip) (simp_all add: processPingTimer_def)
  next
    case B
    with assms show thesis by (intro stale) (simp_all add: processPingTimer_def Let_def)
  next
    case C
    with assms obtain c2 e t where s: "sendPing E None ?c1 = Inr (c2, e)"
      and "pingIntervalTimer c2 = Some t" and "c' = c2\<lparr>pingIntervalTimer := Some Timer_Running\<rparr>"
      by (auto simp: processPingTimer_def go_bind_Inr_conv Let_def split: option.splits)
    then have "shape_of c' = shape_of c2" by (simp add: shape_of_def)
    also have "\<dots> = shape_of ?c1" by (rule sendPing_shape [OF s])
    also have "\<dots> = shape_of c" by (simp add: shape_of_def)
    finally show thesis by (rule ping [OF C(1)])
  qed
qed

lemma processPingTimer_inv:
  assumes "client_inv c" and "processPingTimer E c = Inr c'"
  shows "client_inv c'"
  using assms(2)
proof (cases rule: processPingTimer_cases)
  case skip
  with assms(1) show ?thesis by simp
next
  case stale
  have "client_inv (c\<lparr>pingOut := pingOut c + 1\<rparr>)"
    by (rule client_inv_shape [OF _ assms(1)]) (simp add: shape_of_def)
  then show ?thesis using stale(2) by (rule processOpErr_inv)
next
  case ping
  from ping(2) assms(1) show ?thesis by (rule client_inv_shape)
qed

text \<open>The three ways a call of \<^verbatim>\<open>Connect\<close> goes.\<close>

lemma Connect_cases:
  assumes "Connect E h c = Inr (c', e)"
  obtains (no_conn) err where "createConn (hs_dial h) c = Inr (c', Some err)" and "e = Some err"
  | (up) c1 where "createConn (hs_dial h) c = Inr (c1, None)"
      and "processConnectInit E h (client_setup c1) = Inr (c', None)" and "e = None"
  | (no_handshake) c1 c2 c3 err where "createConn (hs_dial h) c = Inr (c1, None)"
      and "processConnectInit E h (client_setup c1) = Inr (c2, Some err)"
      and "close DISCONNECTED c2 = Inr c3"
      and "if AutoReconn (opts c3)
           then e = None \<and> c' = (client_setup c3)\<lparr>status := RECONNECTING,
             writer := lw_switchToPending (writer (client_setup c3)),
             reconnecting_routines := Suc (reconnecting_routines (client_setup c3))\<rparr>
           else e = Some err \<and> c' = c3"
proof -
  obtain c1 e1 where cr: "createConn (hs_dial h) c = Inr (c1, e1)"
    using assms by (cases "createConn (hs_dial h) c") (auto simp: Connect_def)
  show thesis
  proof (cases e1)
    case (Some err)
    show thesis by (rule no_conn [of err]) (use assms cr Some in \<open>auto simp: Connect_def\<close>)
  next
    case None
    note cr = cr [unfolded None]
    obtain c2 e2 where pi: "processConnectInit E h (client_setup c1) = Inr (c2, e2)"
      using assms cr by (cases "processConnectInit E h (client_setup c1)") (auto simp: Connect_def)
    show thesis
    proof (cases e2)
      case None
      show thesis by (rule up [OF cr]) (use assms cr pi None in \<open>simp_all add: Connect_def\<close>)
    next
      case (Some err)
      note pi = pi [unfolded Some]
      obtain c3 where cl: "close DISCONNECTED c2 = Inr c3"
        using assms cr pi by (cases "close DISCONNECTED c2") (auto simp: Connect_def)
      show thesis
        by (rule no_handshake [OF cr pi cl])
          (use assms cr pi cl in \<open>simp add: Connect_def Let_def split: if_splits\<close>)
    qed
  qed
qed

text \<open>What it makes of the shape; without a handshake and without reconnecting it may end either way.\<close>

lemma Connect_shape:
  assumes "Connect E h c = Inr (c', e)"
  shows "shape_of c' = shape_of c \<or>
    shape_of c' = (shape_of c)\<lparr>sh_conn := True, sh_w := True, sh_chan := True, sh_status := CONNECTED,
      sh_timer := (pingIntervalTimer c \<noteq> None \<or> 0 < PingInterval (opts c))\<rparr> \<or>
    (\<exists>cn. shape_of c' =
      (if AutoReconn (opts c)
       then (shape_of c)\<lparr>sh_conn := cn, sh_w := True, sh_chan := True, sh_timer := False,
              sh_status := RECONNECTING, sh_pending := True, sh_routines := Suc (reconnecting_routines c)\<rparr>
       else (shape_of c)\<lparr>sh_conn := cn, sh_w := True, sh_chan := True, sh_timer := False,
              sh_status := DISCONNECTED\<rparr>))"
  using assms
proof (cases rule: Connect_cases)
  case (no_conn err)
  with createConn_shape [OF no_conn(1)] show ?thesis by simp
next
  case (up c1)
  have "shape_of (client_setup c1) = (shape_of c)\<lparr>sh_conn := True, sh_w := True, sh_chan := True\<rparr>"
    using createConn_shape [OF up(1)] by (simp add: client_setup_def shape_of_def)
  with processConnectInit_shape [OF up(2)] show ?thesis by simp
next
  case (no_handshake c1 c2 c3 err)
  have "shape_of (client_setup c1) = (shape_of c)\<lparr>sh_conn := True, sh_w := True, sh_chan := True\<rparr>"
    using createConn_shape [OF no_handshake(1)] by (simp add: client_setup_def shape_of_def)
  with processConnectInit_shape [OF no_handshake(2)]
  have s2: "shape_of c2 = (shape_of c)\<lparr>sh_conn := True, sh_w := True, sh_chan := True, sh_status := CONNECTING\<rparr>"
    by simp
  have "\<not> isClosed c2" using arg_cong [OF s2, of sh_status] by (simp add: isClosed_def)
  with close_shape [OF no_handshake(3)] s2
  have s3: "shape_of c3 = (shape_of c)\<lparr>sh_conn := \<not> abortReconnect c2, sh_w := True, sh_chan := True,
      sh_timer := False, sh_status := DISCONNECTED\<rparr>" by simp
  have auto_eq: "AutoReconn (opts c3) = AutoReconn (opts c)"
    using arg_cong [OF s3, of sh_auto] by simp
  have "shape_of c' = (if AutoReconn (opts c3)
      then (shape_of c3)\<lparr>sh_status := RECONNECTING, sh_pending := True, sh_chan := True,
             sh_routines := Suc (sh_routines (shape_of c3))\<rparr>
      else shape_of c3)"
    using no_handshake(4) by (auto simp: client_setup_def shape_of_def lw_switchToPending_def split: if_splits)
  then show ?thesis unfolding s3 auto_eq by (intro disjI2 exI [of _ "\<not> abortReconnect c2"]) simp
qed

lemma Connect_inv:
  assumes "client_inv c" and "lw_pending (writer c) = None"
    and "status c = DISCONNECTED \<or> status c = CLOSED" and "Connect E h c = Inr (c', e)"
  shows "client_inv c'"
proof -
  have "reconnecting_routines c = 0"
    using assms(1,2) by (auto simp: client_inv_def shape_inv_def)
  with Connect_shape [OF assms(4)] assms(1,2,3) show ?thesis
    by (elim disjE exE) (auto simp: client_inv_def shape_inv_def)
qed

lemma give_up_shape:
  assumes "give_up c = Inr (c', r)"
  shows "r = Given_Up \<and> (\<exists>cn tm. (cn \<longrightarrow> conn c \<noteq> None) \<and>
    shape_of c' = (shape_of c)\<lparr>sh_conn := cn, sh_timer := tm, sh_status := CLOSED,
      sh_routines := reconnecting_routines c - 1\<rparr>)"
proof -
  let ?c0 = "c\<lparr>cl_err := (case cl_err c of None \<Rightarrow> Some ErrNoServers | Some e \<Rightarrow> Some e)\<rparr>"
  obtain c1 where cl: "close CLOSED ?c0 = Inr c1" and r: "r = Given_Up"
    and c': "c' = c1\<lparr>reconnecting_routines := reconnecting_routines c1 - 1\<rparr>"
    using assms unfolding give_up_def by (auto simp: go_bind_Inr_conv)
  have c0: "shape_of ?c0 = shape_of c" by (simp add: shape_of_def)
  have s1: "shape_of c1 = (shape_of c)\<lparr>sh_status := CLOSED,
      sh_timer := (isClosed ?c0 \<and> sh_timer (shape_of c)),
      sh_conn := (sh_conn (shape_of c) \<and> (isClosed ?c0 \<or> \<not> abortReconnect ?c0))\<rparr>"
    using close_shape [OF cl] unfolding c0 .
  have "shape_of c' = (shape_of c1)\<lparr>sh_routines := sh_routines (shape_of c1) - 1\<rparr>"
    by (simp add: c' shape_of_def)
  then have "shape_of c' = (shape_of c)\<lparr>sh_conn := (sh_conn (shape_of c) \<and> (isClosed ?c0 \<or> \<not> abortReconnect ?c0)),
      sh_timer := (isClosed ?c0 \<and> sh_timer (shape_of c)), sh_status := CLOSED,
      sh_routines := reconnecting_routines c - 1\<rparr>" unfolding s1 by simp
  with r show ?thesis by (metis shape_status(3))
qed

text \<open>The four ways a round of the reconnect loop goes, besides giving up.\<close>

lemma reconnect_round_cases:
  assumes "reconnect_round E h c = Inr (c', r)"
  obtains (closed) "isClosed c" and "give_up c = Inr (c', r)"
  | (no_conn) err where "\<not> isClosed c" and "createConn (hs_dial h) c = Inr (c, Some err)"
      and "c' = c\<lparr>cl_err := None\<rparr>" and "r = Next_Round False"
  | (no_handshake) c1 c2 err where "\<not> isClosed c" and "createConn (hs_dial h) c = Inr (c1, None)"
      and "processConnectInit E h (c1\<lparr>Reconnects := Reconnects c1 + 1\<rparr>) = Inr (c2, Some err)"
      and "if abortReconnect c2 then give_up (c2\<lparr>cl_err := Some err\<rparr>) = Inr (c', r)
           else c' = c2\<lparr>cl_err := Some err, status := RECONNECTING\<rparr> \<and> r = Next_Round False"
  | (no_flush) c1 c2 c3 err where "\<not> isClosed c"
      and "createConn (hs_dial h) c = Inr (c1, None)"
      and "processConnectInit E h (c1\<lparr>Reconnects := Reconnects c1 + 1\<rparr>) = Inr (c2, None)"
      and "writer_op (lw_flushPendingBuffer io_Write) (c2\<lparr>cl_err := None\<rparr>) = Inr (c3, Some err)"
      and "c' = stopPingTimer (c3\<lparr>cl_err := Some err, status := RECONNECTING\<rparr>)"
      and "r = Next_Round True"
  | (restored) c1 c2 c3 where "\<not> isClosed c" and "createConn (hs_dial h) c = Inr (c1, None)"
      and "processConnectInit E h (c1\<lparr>Reconnects := Reconnects c1 + 1\<rparr>) = Inr (c2, None)"
      and "writer_op (lw_flushPendingBuffer io_Write) (c2\<lparr>cl_err := None\<rparr>) = Inr (c3, None)"
      and "c' = c3\<lparr>cl_err := None, writer := lw_doneWithPending (writer c3), status := CONNECTED,
                 reconnecting_routines := reconnecting_routines c3 - 1\<rparr>"
      and "r = Restored"
proof (cases "isClosed c")
  case True
  with assms show thesis by (intro closed) (simp_all add: reconnect_round_def)
next
  case open_c: False
  note red = reconnect_round_def open_c Let_def
  obtain c1 e1 where cr: "createConn (hs_dial h) c = Inr (c1, e1)"
    using assms by (cases "createConn (hs_dial h) c") (auto simp: red)
  show thesis
  proof (cases e1)
    case (Some err)
    with cr have "c1 = c" by (auto elim: createConn_cases)
    with cr Some assms show thesis by (intro no_conn [OF open_c]) (auto simp: red)
  next
    case None
    note cr = cr [unfolded None]
    let ?c1 = "c1\<lparr>Reconnects := Reconnects c1 + 1\<rparr>"
    obtain c2 e2 where pi: "processConnectInit E h ?c1 = Inr (c2, e2)"
      using assms by (cases "processConnectInit E h ?c1") (auto simp: red cr)
    show thesis
    proof (cases e2)
      case (Some err)
      show thesis
        by (rule no_handshake [OF open_c cr pi [unfolded Some]])
          (use assms in \<open>simp add: red cr pi Some split: if_splits\<close>)
    next
      case e2: None
      note pi = pi [unfolded e2]
      let ?c2 = "c2\<lparr>cl_err := None\<rparr>"
      obtain c3 e3 where fl: "writer_op (lw_flushPendingBuffer io_Write) ?c2 = Inr (c3, e3)"
        using assms by (cases "writer_op (lw_flushPendingBuffer io_Write) ?c2") (auto simp: red cr pi)
      show thesis
        using assms fl no_flush [OF open_c cr pi] restored [OF open_c cr pi]
        by (cases e3) (simp_all add: red cr pi)
    qed
  qed
qed

text \<open>What a round makes of the shape.\<close>

definition round_shape :: "round_end \<Rightarrow> shape \<Rightarrow> shape \<Rightarrow> bool" where
  "round_shape r s s' \<longleftrightarrow> (case r of
     Next_Round w \<Rightarrow> s' = s \<or>
       (\<exists>tm. s' = s\<lparr>sh_conn := True, sh_w := True, sh_timer := tm, sh_status := RECONNECTING\<rparr>)
   | Restored \<Rightarrow>
       s' = s\<lparr>sh_conn := True, sh_w := True, sh_timer := (sh_timer s \<or> 0 < sh_ping s),
              sh_status := CONNECTED, sh_pending := False, sh_routines := sh_routines s - 1\<rparr>
   | Given_Up \<Rightarrow> (sh_status s = CLOSED \<or> sh_abort s) \<and> (\<exists>cn w tm. (cn \<longrightarrow> w \<or> sh_conn s) \<and> (sh_w s \<longrightarrow> w) \<and>
       s' = s\<lparr>sh_conn := cn, sh_w := w, sh_timer := tm, sh_status := CLOSED,
              sh_routines := sh_routines s - 1\<rparr>))"

text \<open>A round whose handshake fails tries again, or gives up when it is told to.\<close>

lemma failed_handshake_shape:
  assumes "shape_of c2 = (shape_of c)\<lparr>sh_conn := True, sh_w := True, sh_status := CONNECTING\<rparr>"
    and "if abortReconnect c2 then give_up (c2\<lparr>cl_err := Some err\<rparr>) = Inr (c', r)
         else c' = c2\<lparr>cl_err := Some err, status := RECONNECTING\<rparr> \<and> r = Next_Round False"
  shows "round_shape r (shape_of c) (shape_of c')"
proof -
  have err: "shape_of (c2\<lparr>cl_err := Some err\<rparr>) = shape_of c2"
    "reconnecting_routines (c2\<lparr>cl_err := Some err\<rparr>) = sh_routines (shape_of c2)"
    by (simp_all add: shape_of_def)
  show ?thesis
  proof (cases "abortReconnect c2")
    case True
    with assms(2) have "give_up (c2\<lparr>cl_err := Some err\<rparr>) = Inr (c', r)" by simp
    from give_up_shape [OF this] obtain cn tm where r: "r = Given_Up"
      and "shape_of c' = (shape_of (c2\<lparr>cl_err := Some err\<rparr>))\<lparr>sh_conn := cn, sh_timer := tm,
        sh_status := CLOSED, sh_routines := reconnecting_routines (c2\<lparr>cl_err := Some err\<rparr>) - 1\<rparr>"
      by blast
    then have "shape_of c' = (shape_of c)\<lparr>sh_conn := cn, sh_w := True, sh_timer := tm, sh_status := CLOSED,
        sh_routines := sh_routines (shape_of c) - 1\<rparr>" unfolding err assms(1) by simp
    moreover have "sh_abort (shape_of c)" using arg_cong [OF assms(1), of sh_abort] True by simp
    ultimately show ?thesis using r by (auto simp: round_shape_def)
  next
    case False
    with assms(2) have "shape_of c' = (shape_of c2)\<lparr>sh_status := RECONNECTING\<rparr>"
      and r: "r = Next_Round False" by (simp_all add: shape_of_def)
    then have "shape_of c' = (shape_of c)\<lparr>sh_conn := True, sh_w := True,
        sh_timer := sh_timer (shape_of c), sh_status := RECONNECTING\<rparr>" unfolding assms(1) by simp
    with r show ?thesis by (auto simp: round_shape_def)
  qed
qed

lemma reconnect_round_shape:
  assumes "reconnect_round E h c = Inr (c', r)"
  shows "round_shape r (shape_of c) (shape_of c')"
  using assms
proof (cases rule: reconnect_round_cases)
  case closed
  from give_up_shape [OF closed(2)] obtain cn tm where "r = Given_Up" and "cn \<longrightarrow> sh_conn (shape_of c)"
    and "shape_of c' = (shape_of c)\<lparr>sh_conn := cn, sh_timer := tm, sh_status := CLOSED,
      sh_routines := sh_routines (shape_of c) - 1\<rparr>"
    by (metis shape_status(3,6))
  moreover from this(3) have "shape_of c' = (shape_of c)\<lparr>sh_conn := cn, sh_w := sh_w (shape_of c),
      sh_timer := tm, sh_status := CLOSED, sh_routines := sh_routines (shape_of c) - 1\<rparr>"
    by (intro shape.equality) simp_all
  moreover have "sh_status (shape_of c) = CLOSED" using closed(1) by (simp add: isClosed_def)
  ultimately show ?thesis unfolding round_shape_def by auto
next
  case (no_conn err)
  then show ?thesis by (simp add: round_shape_def shape_of_def)
next
  case (no_handshake c1 c2 err)
  have "shape_of (c1\<lparr>Reconnects := Reconnects c1 + 1\<rparr>) = shape_of c1" by (simp add: shape_of_def)
  with createConn_shape [OF no_handshake(2)] processConnectInit_shape [OF no_handshake(3)]
  show ?thesis by (intro failed_handshake_shape [OF _ no_handshake(4)]) simp
next
  case (no_flush c1 c2 c3 err)
  have "shape_of (c1\<lparr>Reconnects := Reconnects c1 + 1\<rparr>) = shape_of c1"
    and "shape_of (c2\<lparr>cl_err := None\<rparr>) = shape_of c2"
    and "shape_of c' = (shape_of c3)\<lparr>sh_status := RECONNECTING\<rparr>"
    using no_flush(5) by (simp_all add: shape_of_def stopPingTimer_def)
  with createConn_shape [OF no_flush(2)] processConnectInit_shape [OF no_flush(3)]
    flushPending_shape [OF no_flush(4)]
  have "shape_of c' = (shape_of c)\<lparr>sh_conn := True, sh_w := True,
      sh_timer := (sh_timer (shape_of c) \<or> 0 < sh_ping (shape_of c)), sh_status := RECONNECTING\<rparr>" by simp
  with no_flush(6) show ?thesis by (auto simp: round_shape_def)
next
  case (restored c1 c2 c3)
  have "shape_of (c1\<lparr>Reconnects := Reconnects c1 + 1\<rparr>) = shape_of c1"
    and "shape_of (c2\<lparr>cl_err := None\<rparr>) = shape_of c2"
    and "shape_of c' = (shape_of c3)\<lparr>sh_status := CONNECTED, sh_pending := False,
       sh_routines := sh_routines (shape_of c3) - 1\<rparr>"
    using restored(5) by (simp_all add: shape_of_def lw_doneWithPending_def)
  with createConn_shape [OF restored(2)] processConnectInit_shape [OF restored(3)]
    flushPending_shape [OF restored(4)] restored(6)
  show ?thesis by (simp add: round_shape_def)
qed

lemma round_shape_inv:
  assumes "round_shape r s s'" and "shape_inv s" and "0 < sh_routines s"
  shows "shape_inv s'"
proof (cases r)
  case (Next_Round w)
  with assms(1) consider "s' = s"
    | tm where "s' = s\<lparr>sh_conn := True, sh_w := True, sh_timer := tm, sh_status := RECONNECTING\<rparr>"
    by (auto simp: round_shape_def)
  then show ?thesis by cases (use assms(2,3) in \<open>auto simp: shape_inv_def\<close>)
next
  case Restored
  with assms show ?thesis by (simp add: round_shape_def shape_inv_def)
next
  case Given_Up
  with assms show ?thesis unfolding round_shape_def
    by (simp, elim exE conjE) (simp add: shape_inv_def, blast)
qed

lemma reconnect_round_inv:
  assumes "client_inv c" and "0 < reconnecting_routines c" and "reconnect_round E h c = Inr (c', r)"
  shows "client_inv c'"
  using round_shape_inv [OF reconnect_round_shape [OF assms(3)]] assms(1,2) by (simp add: client_inv_def)

text \<open>The operations that leave the shape as it is.\<close>

lemma flusher_round_shape: "flusher_round f c = Inr (c', b) \<Longrightarrow> shape_of c' = shape_of c"
  by (auto simp: flusher_round_def go_bind_Inr_conv split: if_splits dest!: flush_shape)
    (auto simp: shape_of_def)

lemma SendMessage_shape:
  assumes "SendMessage E ch pl opt uuid now c = Inr (c', r)"
  shows "shape_of c' = shape_of c"
proof -
  have ap: "shape_of c1 = shape_of c"
    if "appendPacket E f (c\<lparr>clientIDGen := k, lastSendMsgTime := Some now\<rparr>) = Inr (c1, q)" for f k c1 q
    using appendPacket_shape [OF that] by (simp add: shape_of_def)
  then show ?thesis using assms
    by (auto simp: SendMessage_def go_bind_Inr_conv Let_def split: sum.splits option.splits if_splits
        dest: ap)
qed

lemma FlushTimeout_start_shape: "FlushTimeout_start E t ch c = Inr (c', r) \<Longrightarrow> shape_of c' = shape_of c"
  by (auto simp: FlushTimeout_start_def go_bind_Inr_conv split: if_splits dest!: sendPing_shape)

lemma FlushTimeout_end_shape: "FlushTimeout_end ch c = (c', e) \<Longrightarrow> shape_of c' = shape_of c"
  by (auto simp: FlushTimeout_end_def removeFlushEntry_def shape_of_def
      split: option.splits if_splits)

lemma handlePong_shape: "shape_of (handlePong c) = shape_of c"
  by (auto simp: handlePong_def shape_of_def split: option.splits list.splits)

lemma handlePacket_shape:
  assumes "handlePacket E cb frm c a = Inr (c', a')"
  shows "shape_of c' = shape_of c"
proof -
  let ?c1 = "c\<lparr>InBytes := InBytes c + of_nat (GetFrameSize E frm), InMsgs := InMsgs c + 1\<rparr>"
  have c1: "shape_of ?c1 = shape_of c" by (simp add: shape_of_def)
  have recv: "shape_of c2 = shape_of c" if "handleRecvPacket E cb p ?c1 a = Inr (c2, a2)" for p c2 a2
    using that c1 by (auto simp: handleRecvPacket_def go_bind_Inr_conv split: if_splits
        dest!: sendPacket_shape)
  show ?thesis
    using assms c1 recv handlePong_shape [of ?c1]
    by (auto simp: handlePacket_def Let_def split: frame.splits)
qed

lemmas same_shape = flusher_round_shape SendMessage_shape FlushTimeout_start_shape
  FlushTimeout_end_shape handlePacket_shape

section \<open>The operations interleaved\<close>

text \<open>
  A step is one critical section of one goroutine: a call of the application, a round of the ping
  timer, of the flusher or of the reconnect loop, the handling of one packet, or a failure that the
  read loop reports. \<^verbatim>\<open>Connect\<close> is called on a client that is not connected and whose output is
  not being collected. \<open>'a\<close> is the state of the application's callbacks.
\<close>

inductive client_step ::
    "env \<Rightarrow> 'a callbacks \<Rightarrow> client \<times> 'a \<Rightarrow> client \<times> 'a \<Rightarrow> bool" for E cb where
  connect: "status c = DISCONNECTED \<or> status c = CLOSED \<Longrightarrow> lw_pending (writer c) = None
    \<Longrightarrow> Connect E h c = Inr (c', e) \<Longrightarrow> client_step E cb (c, a) (c', a)"
| close: "Close c = Inr c' \<Longrightarrow> client_step E cb (c, a) (c', a)"
| op_err: "processOpErr err c = Inr c' \<Longrightarrow> client_step E cb (c, a) (c', a)"
| ping: "processPingTimer E c = Inr c' \<Longrightarrow> client_step E cb (c, a) (c', a)"
| round: "0 < reconnecting_routines c \<Longrightarrow> reconnect_round E h c = Inr (c', r)
    \<Longrightarrow> client_step E cb (c, a) (c', a)"
| flusher: "flusher_round f c = Inr (c', b) \<Longrightarrow> client_step E cb (c, a) (c', a)"
| send: "SendMessage E ch pl opt uuid now c = Inr (c', q) \<Longrightarrow> client_step E cb (c, a) (c', a)"
| flush_start: "FlushTimeout_start E t k c = Inr (c', w) \<Longrightarrow> client_step E cb (c, a) (c', a)"
| flush_end: "FlushTimeout_end k c = (c', e) \<Longrightarrow> client_step E cb (c, a) (c', a)"
| packet: "handlePacket E cb frm c a = Inr (c', a') \<Longrightarrow> client_step E cb (c, a) (c', a')"

inductive client_reach ::
    "env \<Rightarrow> 'a callbacks \<Rightarrow> client \<times> 'a \<Rightarrow> client \<times> 'a \<Rightarrow> bool" for E cb s0 where
  init: "client_reach E cb s0 s0"
| step: "client_reach E cb s0 s \<Longrightarrow> client_step E cb s s' \<Longrightarrow> client_reach E cb s0 s'"

inductive_cases client_stepE: "client_step E cb s s'"

lemma client_step_inv:
  assumes "client_step E cb s s'" and "client_inv (fst s)"
  shows "client_inv (fst s')"
  using assms
proof cases
  case (connect c h c' e a)
  with assms(2) Connect_inv show ?thesis by simp
next
  case (close c c' a)
  with assms(2) Close_inv show ?thesis by simp
next
  case (op_err err c c' a)
  with assms(2) processOpErr_inv show ?thesis by simp
next
  case (ping c c' a)
  with assms(2) processPingTimer_inv show ?thesis by simp
next
  case (round c h c' r a)
  with assms(2) reconnect_round_inv show ?thesis by simp
next
  case (flusher f c c' b a)
  with assms(2) client_inv_shape [OF flusher_round_shape [OF flusher(3)]] show ?thesis by simp
next
  case (send ch pl opt uuid now c c' q a)
  with assms(2) client_inv_shape [OF SendMessage_shape [OF send(3)]] show ?thesis by simp
next
  case (flush_start t k c c' w a)
  with assms(2) client_inv_shape [OF FlushTimeout_start_shape [OF flush_start(3)]] show ?thesis
    by simp
next
  case (flush_end k c c' e a)
  with assms(2) client_inv_shape [OF FlushTimeout_end_shape [OF flush_end(3)]] show ?thesis by simp
next
  case (packet frm c a c' a')
  with assms(2) client_inv_shape [OF handlePacket_shape [OF packet(3)]] show ?thesis by simp
qed

lemma client_reach_inv:
  assumes "client_reach E cb s0 s" and "client_inv (fst s0)"
  shows "client_inv (fst s)"
  using assms by induction (auto dest: client_step_inv)

lemma New_inv: "New ver address ops = Inr c \<Longrightarrow> client_inv c"
  by (auto simp: New_def go_bind_Inr_conv fresh_client_inv)


lemma demo_reach: "client_reach demo_env cb (demo_client, a) (demo_up, a)"
proof (rule client_reach.step [OF client_reach.init])
  show "client_step demo_env cb (demo_client, a) (demo_up, a)"
    by (rule client_step.connect [OF _ _ demo_Connect_eq])
      (simp_all add: demo_client_def fresh_client_def)
qed


text \<open>
  C6. No nil dereference: in every state that the operations of a new client lead to, closing it,
  the failure handler, a round of the flusher and, with a ping interval, a round of the ping timer
  return.
\<close>

theorem reachable_no_panic:
  assumes "New ver address ops = Inr c0" and "client_reach E cb (c0, a0) (c, a)"
  shows "Close c \<noteq> Inl p \<and> processOpErr err c \<noteq> Inl p \<and> flusher_round f c \<noteq> Inl p \<and>
    (0 < PingInterval (opts c) \<longrightarrow> processPingTimer E c \<noteq> Inl p)"
proof -
  have inv: "client_inv c"
    using client_reach_inv [OF assms(2)] New_inv [OF assms(1)] by simp
  then have w: "conn c \<noteq> None \<longrightarrow> lw_w (writer c) \<noteq> None"
    and up: "status c = CONNECTED \<Longrightarrow> lw_w (writer c) \<noteq> None"
    and timer: "status c = CONNECTED \<Longrightarrow> 0 < PingInterval (opts c) \<Longrightarrow> pingIntervalTimer c \<noteq> None"
    unfolding client_inv_def shape_inv_def shape_status by blast+
  have op: "processOpErr e c1 \<noteq> Inl p" if "conn c1 = conn c" "writer c1 = writer c" for e c1
    using that w close_no_panic [of "c1\<lparr>status := DISCONNECTED, cl_err := Some e\<rparr>" CLOSED p]
    by (auto simp: processOpErr_def Let_def)
  have fl: "flusher_round f c \<noteq> Inl p"
    using up lw_no_panic(1) [of "writer c" io_Write p]
    by (auto simp: flusher_round_def go_bind_Inl_conv writer_op_def isConnected_def)
  have tm: "processPingTimer E c \<noteq> Inl p" if pos: "0 < PingInterval (opts c)"
  proof (cases "status c = CONNECTED \<and> \<not> MaxPingCount (opts c) < pingOut c + 1")
    case True
    let ?c1 = "c\<lparr>pingOut := pingOut c + 1\<rparr>"
    have "sendPing E None ?c1 \<noteq> Inl q" for q
      using True up sendPing_no_panic [of ?c1 E None q] by simp
    then obtain c2 e where s: "sendPing E None ?c1 = Inr (c2, e)" by (cases "sendPing E None ?c1") auto
    have "pingIntervalTimer c2 \<noteq> None"
      using arg_cong [OF sendPing_shape [OF s], of sh_timer] timer pos True by (simp add: shape_of_def)
    with True s show ?thesis by (auto simp: processPingTimer_def)
  next
    case False
    with op [of "c\<lparr>pingOut := pingOut c + 1\<rparr>"] show ?thesis by (auto simp: processPingTimer_def)
  qed
  show ?thesis using close_no_panic [OF w] op [of c] fl tm by (simp add: Close_def)
qed

theorem reachable_no_panic_witness:
  "processPingTimer demo_env demo_up \<noteq> Inl Nil_Dereference \<and> Close demo_up \<noteq> Inl Nil_Dereference"
proof -
  have "client_reach demo_env \<lparr>onRecv = None, onSendack = None\<rparr> (demo_client, ()) (demo_up, ())"
    by (rule demo_reach)
  from reachable_no_panic [OF demo_New this, of Nil_Dereference ErrTimeout None] show ?thesis
    by (simp add: demo_up_simps demo_options_def WithAutoReconn_def NewOptions_def)
qed

text \<open>
  A closed client stays closed: nothing but a call of \<^verbatim>\<open>Connect\<close> by the application takes it
  out of \<open>CLOSED\<close>, in particular not the reconnect loop, and a round of the loop that finds the
  client closed ends the loop.
\<close>

theorem closed_is_final:
  assumes "client_step E cb (c, a) (c', a')" and "status c = CLOSED"
  shows "status c' = CLOSED \<or> (\<exists>h e. Connect E h c = Inr (c', e))"
proof -
  have sh: "shape_of c' = shape_of c \<Longrightarrow> status c' = CLOSED"
    using assms(2) shape_of_eqD(1) by metis
  have gu: "status c' = CLOSED" if "give_up c = Inr (c', r)" for r
    using that assms(2) by (auto simp: give_up_def go_bind_Inr_conv close_def isClosed_def)
  from assms(1) show ?thesis
  proof cases
    case (close)
    with assms(2) show ?thesis by (auto simp: Close_def close_def isClosed_def)
  next
    case (round h r)
    with assms(2) gu show ?thesis by (auto simp: reconnect_round_def isClosed_def)
  qed (use assms(2) sh same_shape in
      \<open>auto simp: processOpErr_def processPingTimer_def isClosed_def dest: same_shape\<close>)
qed

theorem closed_is_final_witness:
  "\<exists>c. give_up (demo_client\<lparr>status := CLOSED, reconnecting_routines := 1\<rparr>) = Inr (c, Given_Up) \<and>
     (status c = CLOSED \<or> (\<exists>h e. Connect demo_env h
        (demo_client\<lparr>status := CLOSED, reconnecting_routines := 1\<rparr>) = Inr (c, e)))"
proof -
  let ?c = "demo_client\<lparr>status := CLOSED, reconnecting_routines := 1\<rparr>"
  obtain c where g: "give_up ?c = Inr (c, Given_Up)"
    by (simp add: give_up_def close_def isClosed_def demo_client_def fresh_client_def)
  then have "reconnect_round demo_env demo_handshake ?c = Inr (c, Given_Up)"
    by (simp add: reconnect_round_def isClosed_def)
  then have "client_step demo_env \<lparr>onRecv = None, onSendack = None\<rparr> (?c, ()) (c, ())"
    by (intro client_step.round) simp_all
  from closed_is_final [OF this] g show ?thesis by auto
qed

end
