(* ===== verification/Client_Phases.thy ===== *)
theory Client_Phases
  imports Client_Lifecycle
begin

text \<open>
  What the application may rely on, as a machine of five phases, and the proof that the client
  implements it: every operation, whatever its branch, takes the client along an edge of the machine.
\<close>

section \<open>The machine\<close>

text \<open>\<open>Ending\<close> is a closed client whose reconnect loop has not yet noticed.\<close>

datatype phase = Idle | Up | Retrying | Ending | Shut

datatype client_event = E_Connect | E_Close | E_Failure | E_Ping | E_Round | E_Other

text \<open>The phases after an event; \<open>auto\<close> tells whether the client reconnects by itself.\<close>

fun phase_next :: "bool \<Rightarrow> client_event \<Rightarrow> phase \<Rightarrow> phase list" where
  "phase_next auto E_Connect p =
     (if p = Idle \<or> p = Shut then [p, Up, if auto then Retrying else Idle] else [])"
| "phase_next auto E_Close p = [if p = Retrying \<or> p = Ending then Ending else Shut]"
| "phase_next auto E_Failure p =
     [if p = Idle then Shut else if p = Up then (if auto then Retrying else Shut) else p]"
| "phase_next auto E_Ping p = (if p = Up then [Up, if auto then Retrying else Shut] else [p])"
| "phase_next auto E_Round p =
     (if p = Retrying then [Retrying, Up] else if p = Ending then [Shut] else [])"
| "phase_next auto E_Other p = [p]"

inductive phase_run :: "bool \<Rightarrow> client_event list \<Rightarrow> phase \<Rightarrow> phase \<Rightarrow> bool" for auto where
  stop: "phase_run auto [] p p"
| go: "phase_run auto evs p q \<Longrightarrow> q' \<in> set (phase_next auto ev q) \<Longrightarrow> phase_run auto (evs @ [ev]) p q'"

lemma phase_run_no_auto:
  "phase_run False evs p q \<Longrightarrow> p \<noteq> Retrying \<and> p \<noteq> Ending \<Longrightarrow> q \<noteq> Retrying \<and> q \<noteq> Ending"
proof (induction rule: phase_run.induct)
  case (go evs p q q' ev)
  then show ?case by (cases ev) (auto split: if_splits)
qed simp

section \<open>The abstraction\<close>

definition shape_phase :: "shape \<Rightarrow> phase" where
  "shape_phase s =
     (case sh_status s of
        CONNECTED \<Rightarrow> Up
      | RECONNECTING \<Rightarrow> Retrying
      | CLOSED \<Rightarrow> (if 0 < sh_routines s then Ending else Shut)
      | _ \<Rightarrow> Idle)"

definition phase_of :: "client \<Rightarrow> phase" where
  "phase_of c = shape_phase (shape_of c)"

text \<open>An event is what one operation of the client does.\<close>

definition does ::
    "env \<Rightarrow> 'a callbacks \<Rightarrow> client_event \<Rightarrow> client \<times> 'a \<Rightarrow> client \<times> 'a \<Rightarrow> bool" where
  "does E cb ev s s' \<longleftrightarrow> client_step E cb s s' \<and>
     (case ev of
        E_Connect \<Rightarrow> (status (fst s) = DISCONNECTED \<or> status (fst s) = CLOSED) \<and>
          lw_pending (writer (fst s)) = None \<and> (\<exists>h e. Connect E h (fst s) = Inr (fst s', e))
      | E_Close \<Rightarrow> Close (fst s) = Inr (fst s')
      | E_Failure \<Rightarrow> \<exists>err. processOpErr err (fst s) = Inr (fst s')
      | E_Ping \<Rightarrow> processPingTimer E (fst s) = Inr (fst s')
      | E_Round \<Rightarrow> 0 < reconnecting_routines (fst s) \<and> (\<exists>h r. reconnect_round E h (fst s) = Inr (fst s', r))
      | E_Other \<Rightarrow> shape_of (fst s') = shape_of (fst s))"

inductive client_run ::
    "env \<Rightarrow> 'a callbacks \<Rightarrow> client_event list \<Rightarrow> client \<times> 'a \<Rightarrow> client \<times> 'a \<Rightarrow> bool" for E cb where
  stop: "client_run E cb [] s s"
| go: "client_run E cb evs s s1 \<Longrightarrow> does E cb ev s1 s2 \<Longrightarrow> client_run E cb (evs @ [ev]) s s2"

lemma client_step_does: "client_step E cb s s' \<Longrightarrow> \<exists>ev. does E cb ev s s'"
proof -
  assume st: "client_step E cb s s'"
  have other: "shape_of (fst s') = shape_of (fst s) \<Longrightarrow> does E cb E_Other s s'"
    by (simp add: does_def st)
  from st show ?thesis
  proof cases
    case (connect c h c' e a)
    then have "does E cb E_Connect s s'" using st by (auto simp: does_def)
    then show ?thesis ..
  next
    case (close c c' a)
    then have "does E cb E_Close s s'" using st by (simp add: does_def)
    then show ?thesis ..
  next
    case (op_err err c c' a)
    then have "does E cb E_Failure s s'" using st by (auto simp: does_def)
    then show ?thesis ..
  next
    case (ping c c' a)
    then have "does E cb E_Ping s s'" using st by (simp add: does_def)
    then show ?thesis ..
  next
    case (round c h c' r a)
    then have "does E cb E_Round s s'" using st by (auto simp: does_def)
    then show ?thesis ..
  qed (use other in \<open>fastforce dest: same_shape\<close>)+
qed

lemma client_reach_run: "client_reach E cb s0 s \<Longrightarrow> \<exists>evs. client_run E cb evs s0 s"
proof (induction rule: client_reach.induct)
  case init
  show ?case using client_run.stop by blast
next
  case (step s s')
  then show ?case using client_step_does client_run.go by blast
qed

lemma client_run_reach: "client_run E cb evs s0 s \<Longrightarrow> client_reach E cb s0 s"
  by (induction rule: client_run.induct) (auto simp: does_def intro: client_reach.intros)

section \<open>Every operation follows an edge\<close>

lemma shape_phase_simps [simp]:
  "shape_phase (s\<lparr>sh_conn := cn\<rparr>) = shape_phase s" "shape_phase (s\<lparr>sh_w := w\<rparr>) = shape_phase s"
  "shape_phase (s\<lparr>sh_pending := p\<rparr>) = shape_phase s" "shape_phase (s\<lparr>sh_timer := tm\<rparr>) = shape_phase s"
  "shape_phase (s\<lparr>sh_chan := ch\<rparr>) = shape_phase s"
  by (simp_all add: shape_phase_def)

text \<open>An edge of the machine between two shapes of a client with the same options.\<close>

definition edge :: "client_event \<Rightarrow> shape \<Rightarrow> shape \<Rightarrow> bool" where
  "edge ev s s' \<longleftrightarrow> sh_auto s' = sh_auto s \<and> shape_phase s' \<in> set (phase_next (sh_auto s) ev (shape_phase s))"

lemma loop_phase:
  assumes "shape_inv s"
  shows "0 < sh_routines s \<longleftrightarrow> shape_phase s = Retrying \<or> shape_phase s = Ending"
proof (cases "0 < sh_routines s")
  case True
  then have "sh_status s = RECONNECTING \<or> sh_status s = CLOSED"
    using assms unfolding shape_inv_def by blast
  with True show ?thesis by (auto simp: shape_phase_def)
next
  case False
  then have "sh_status s \<noteq> RECONNECTING" using assms unfolding shape_inv_def by (metis zero_less_one)
  with False show ?thesis by (cases "sh_status s") (simp_all add: shape_phase_def)
qed

lemma Connect_edge:
  assumes "client_inv c" and "status c = DISCONNECTED \<or> status c = CLOSED"
    and "lw_pending (writer c) = None" and "Connect E h c = Inr (c', e)"
  shows "edge E_Connect (shape_of c) (shape_of c')"
proof -
  let ?s = "shape_of c"
  have "sh_routines ?s = 0" using assms(1,3) by (auto simp: client_inv_def shape_inv_def)
  with assms(2) have p: "shape_phase ?s = Idle \<or> shape_phase ?s = Shut"
    by (auto simp: shape_phase_def)
  from Connect_shape [OF assms(4)] show ?thesis
  proof (elim disjE exE)
    assume sh: "shape_of c' = ?s"
    show ?thesis unfolding sh using p by (auto simp: edge_def)
  next
    assume sh: "shape_of c' = ?s\<lparr>sh_conn := True, sh_w := True, sh_chan := True,
      sh_status := CONNECTED, sh_timer := (pingIntervalTimer c \<noteq> None \<or> 0 < PingInterval (opts c))\<rparr>"
    show ?thesis unfolding sh using p by (auto simp: edge_def shape_phase_def)
  next
    fix cn
    assume sh: "shape_of c' =
      (if AutoReconn (opts c)
       then ?s\<lparr>sh_conn := cn, sh_w := True, sh_chan := True, sh_timer := False,
              sh_status := RECONNECTING, sh_pending := True, sh_routines := Suc (reconnecting_routines c)\<rparr>
       else ?s\<lparr>sh_conn := cn, sh_w := True, sh_chan := True, sh_timer := False,
              sh_status := DISCONNECTED\<rparr>)"
    show ?thesis unfolding sh using p by (simp add: edge_def) (auto simp: shape_phase_def)
  qed
qed

lemma Close_edge:
  assumes "client_inv c" and "Close c = Inr c'"
  shows "edge E_Close (shape_of c) (shape_of c')"
proof -
  have "shape_phase (shape_of c') = (if 0 < sh_routines (shape_of c) then Ending else Shut)"
    unfolding close_shape [OF assms(2) [unfolded Close_def]] by (simp add: shape_phase_def)
  moreover have "sh_auto (shape_of c') = sh_auto (shape_of c)"
    unfolding close_shape [OF assms(2) [unfolded Close_def]] by simp
  ultimately show ?thesis
    using loop_phase [of "shape_of c"] assms(1) by (auto simp: edge_def client_inv_def)
qed

lemma processOpErr_edge:
  assumes "client_inv c" and "processOpErr err c = Inr c'"
  shows "edge E_Failure (shape_of c) (shape_of c')"
proof -
  let ?s = "shape_of c"
  from assms(1) have inv: "shape_inv ?s" by (simp add: client_inv_def)
  from assms(2) show ?thesis
  proof (cases rule: processOpErr_cases)
    case skip
    with inv have "shape_phase ?s \<noteq> Idle \<and> shape_phase ?s \<noteq> Up"
      by (auto simp: shape_phase_def shape_inv_def isConnecting_def isClosed_def isReconnecting_def)
    with skip show ?thesis by (simp add: edge_def)
  next
    case retry
    then show ?thesis unfolding retry(3) by (simp add: edge_def shape_phase_def)
  next
    case (plain tm cn)
    have "sh_routines ?s = 0" using inv plain(1)
      by (cases "sh_status ?s") (auto simp: shape_inv_def isConnecting_def isClosed_def isReconnecting_def)
    moreover have "shape_phase ?s = Idle \<or> shape_phase ?s = Up \<and> \<not> sh_auto ?s"
      using plain(1,2) by (cases "status c") (auto simp: shape_phase_def isConnecting_def isClosed_def isReconnecting_def)
    ultimately show ?thesis unfolding plain(3) by (auto simp: edge_def) (auto simp: shape_phase_def)
  qed
qed

lemma processPingTimer_edge:
  assumes "client_inv c" and "processPingTimer E c = Inr c'"
  shows "edge E_Ping (shape_of c) (shape_of c')"
  using assms(2)
proof (cases rule: processPingTimer_cases)
  case skip
  then show ?thesis by (cases "status c") (simp_all add: edge_def shape_phase_def)
next
  case stale
  have "client_inv (c\<lparr>pingOut := pingOut c + 1\<rparr>)"
    by (rule client_inv_shape [OF _ assms(1)]) (simp add: shape_of_def)
  from processOpErr_edge [OF this stale(2)] stale(1) show ?thesis
    by (auto simp: edge_def shape_phase_def)
next
  case ping
  then show ?thesis by (simp add: edge_def)
qed

lemma reconnect_round_edge:
  assumes "client_inv c" and "0 < reconnecting_routines c" and "reconnect_round E h c = Inr (c', r)"
  shows "edge E_Round (shape_of c) (shape_of c')"
proof -
  have inv: "shape_inv (shape_of c)" and n: "0 < sh_routines (shape_of c)"
    using assms(1,2) by (simp_all add: client_inv_def)
  have one: "sh_routines (shape_of c) = 1" and st: "sh_status (shape_of c) = RECONNECTING \<or> sh_status (shape_of c) = CLOSED"
    using inv n unfolding shape_inv_def by blast+
  have no_abort: "\<not> sh_abort (shape_of c)" using inv unfolding shape_inv_def by blast
  have "edge E_Round s s'"
    if "round_shape r s s'" "sh_routines s = 1" "\<not> sh_abort s"
      "r = Given_Up \<longrightarrow> sh_status s = CLOSED" "r \<noteq> Given_Up \<longrightarrow> sh_status s = RECONNECTING" for s s'
    using that by (cases r) (auto simp: round_shape_def edge_def shape_phase_def)
  moreover have "r = Given_Up \<longleftrightarrow> status c = CLOSED"
    using assms(3) reconnect_round_shape [OF assms(3)] no_abort
    by (auto simp: round_shape_def reconnect_round_def isClosed_def dest: give_up_shape)
  ultimately show ?thesis
    using reconnect_round_shape [OF assms(3)] one no_abort st by auto
qed

lemma does_edge:
  assumes "does E cb ev s s'" and "client_inv (fst s)"
  shows "edge ev (shape_of (fst s)) (shape_of (fst s'))"
proof (cases ev)
  case E_Other
  with assms show ?thesis by (simp add: does_def edge_def)
next
  case E_Connect
  then obtain h e where "Connect E h (fst s) = Inr (fst s', e)" using assms by (auto simp: does_def)
  moreover have "(status (fst s) = DISCONNECTED \<or> status (fst s) = CLOSED) \<and> lw_pending (writer (fst s)) = None"
    using assms E_Connect by (simp add: does_def)
  ultimately show ?thesis unfolding E_Connect using assms(2) Connect_edge by blast
qed (use assms Close_edge processOpErr_edge processPingTimer_edge reconnect_round_edge in
    \<open>auto simp: does_def\<close>)

section \<open>The client implements the machine\<close>

lemma client_run_phases:
  assumes "client_run E cb evs s0 s" and "client_inv (fst s0)"
  shows "AutoReconn (opts (fst s)) = AutoReconn (opts (fst s0)) \<and>
    phase_run (AutoReconn (opts (fst s0))) evs (phase_of (fst s0)) (phase_of (fst s))"
  using assms
proof (induction rule: client_run.induct)
  case (stop s)
  show ?case by (simp add: phase_run.stop)
next
  case (go evs s s1 ev s2)
  have "client_inv (fst s1)"
    using client_reach_inv [OF client_run_reach [OF go(1)] go(4)] .
  from does_edge [OF go(2) this] go(3) [OF go(4)] show ?case
    unfolding edge_def phase_of_def by (auto intro: phase_run.go)
qed



end
