(* ===== verification/Client_Behaviour.thy ===== *)
theory Client_Behaviour
  imports Client_Lifecycle
begin

text \<open>
  What the client does over several steps: the ping watchdog, the matching of pongs with pings, the
  key agreement, sending and acknowledging messages, and the read loop from bytes to callbacks.
\<close>

section \<open>The ping watchdog\<close>

text \<open>Firings of the ping timer with no packet in between.\<close>

fun ping_rounds :: "env \<Rightarrow> nat \<Rightarrow> client \<Rightarrow> client go" where
  "ping_rounds E 0 c = Inr c"
| "ping_rounds E (Suc n) c = go_bind (processPingTimer E c) (ping_rounds E n)"

lemma sendPing_returns:
  assumes "lw_w (writer c) \<noteq> None"
  shows "\<exists>w e. sendPing E ch c = Inr (c\<lparr>pongs := Some ((case pongs c of None \<Rightarrow> [] | Some ps \<Rightarrow> ps) @ [ch]),
           writer := w\<rparr>, e)"
proof -
  obtain c' e where s: "sendPing E ch c = Inr (c', e)"
    using sendPing_no_panic [OF assms] by (cases "sendPing E ch c") auto
  have "\<exists>w. c' = c\<lparr>pongs := Some ((case pongs c of None \<Rightarrow> [] | Some ps \<Rightarrow> ps) @ [ch]), writer := w\<rparr>"
    using s by (auto simp: sendPing_def Let_def go_bind_Inr_conv split: sum.splits option.splits
        dest!: writer_op_others intro: exI [of _ "writer c"])
  with s show ?thesis by auto
qed

lemma processPingTimer_skip: "status c \<noteq> CONNECTED \<Longrightarrow> ping_rounds E n c = Inr c"
  by (induction n) (simp_all add: processPingTimer_def)

lemma processPingTimer_stale:
  assumes "client_inv c" and "status c = CONNECTED" and "MaxPingCount (opts c) < pingOut c + 1"
  shows "\<exists>c'. processPingTimer E c = Inr c' \<and>
    status c' = (if AutoReconn (opts c) then RECONNECTING else CLOSED)"
proof (cases "AutoReconn (opts c)")
  case True
  with assms show ?thesis
    by (auto simp: processPingTimer_def processOpErr_def Let_def stopPingTimer_def close_conn_def
        isConnecting_def isClosed_def isReconnecting_def)
next
  case False
  let ?c = "c\<lparr>pingOut := pingOut c + 1, status := DISCONNECTED, cl_err := Some ErrStaleConnection\<rparr>"
  have "conn ?c \<noteq> None \<longrightarrow> lw_w (writer ?c) \<noteq> None"
    using assms(1) unfolding client_inv_def shape_inv_def shape_status by simp
  then obtain c' where c': "close CLOSED ?c = Inr c'"
    using close_no_panic [of ?c] by (cases "close CLOSED ?c") auto
  have "status c' = CLOSED" using arg_cong [OF close_shape [OF c'], of sh_status] by simp
  with c' False assms show ?thesis
    by (auto simp: processPingTimer_def processOpErr_def isConnecting_def isClosed_def
        isReconnecting_def)
qed

lemma processPingTimer_ping:
  assumes "client_inv c" and "status c = CONNECTED" and "\<not> MaxPingCount (opts c) < pingOut c + 1"
    and "0 < PingInterval (opts c)"
  shows "\<exists>c'. processPingTimer E c = Inr c' \<and> client_inv c' \<and> status c' = CONNECTED \<and>
    opts c' = opts c \<and> pingOut c' = pingOut c + 1"
proof -
  have w: "lw_w (writer c) \<noteq> None" and t: "pingIntervalTimer c \<noteq> None"
    using assms(1,2,4) unfolding client_inv_def shape_inv_def shape_status by simp_all
  let ?c = "c\<lparr>pingOut := pingOut c + 1\<rparr>"
  obtain w' e where s: "sendPing E None ?c = Inr (?c\<lparr>pongs := Some ((case pongs ?c of None \<Rightarrow> []
      | Some ps \<Rightarrow> ps) @ [None]), writer := w'\<rparr>, e)"
    using sendPing_returns [of ?c E None] w by auto
  with assms(2,3) t obtain c' where p: "processPingTimer E c = Inr c'"
    and "status c' = CONNECTED" "opts c' = opts c" "pingOut c' = pingOut c + 1"
    by (auto simp: processPingTimer_def)
  moreover have "client_inv c'" by (rule processPingTimer_inv [OF assms(1) p])
  ultimately show ?thesis by simp
qed

lemma ping_rounds_outcome:
  assumes "client_inv c" and "status c = CONNECTED" and "0 < PingInterval (opts c)"
    and "pingOut c \<le> MaxPingCount (opts c)"
  shows "\<exists>c'. ping_rounds E n c = Inr c' \<and>
    status c' = (if int n \<le> MaxPingCount (opts c) - pingOut c then CONNECTED
                 else if AutoReconn (opts c) then RECONNECTING else CLOSED)"
  using assms
proof (induction n arbitrary: c)
  case (Suc n)
  show ?case
  proof (cases "MaxPingCount (opts c) < pingOut c + 1")
    case True
    from processPingTimer_stale [OF Suc.prems(1,2) True] obtain c' where
      "processPingTimer E c = Inr c'" "status c' = (if AutoReconn (opts c) then RECONNECTING else CLOSED)"
      by blast
    moreover from this have "ping_rounds E n c' = Inr c'" by (intro processPingTimer_skip) simp
    moreover have "\<not> int (Suc n) \<le> MaxPingCount (opts c) - pingOut c" using True by linarith
    ultimately show ?thesis by simp
  next
    case False
    from processPingTimer_ping [OF Suc.prems(1,2) False Suc.prems(3)] obtain c' where
      "processPingTimer E c = Inr c'" and c': "client_inv c'" "status c' = CONNECTED"
        "opts c' = opts c" "pingOut c' = pingOut c + 1" by blast
    moreover from Suc.IH [of c'] c' Suc.prems(3) False
    obtain c'' where "ping_rounds E n c' = Inr c'' \<and>
        status c'' = (if int n \<le> MaxPingCount (opts c) - (pingOut c + 1) then CONNECTED
                      else if AutoReconn (opts c) then RECONNECTING else CLOSED)" by auto
    ultimately show ?thesis by (auto simp: algebra_simps)
  qed
qed simp

text \<open>
  C12. The ping watchdog is exact: while no pong (or handshake) resets the counter, a connected
  client survives as many firings of the timer as \<^verbatim>\<open>MaxPingCount\<close> leaves open and not one more;
  then it reconnects, or closes when automatic reconnecting is off.
\<close>

theorem ping_watchdog:
  assumes "New ver address ops = Inr c0" and "client_reach E cb (c0, a0) (c, a)"
    and "status c = CONNECTED" and "0 < PingInterval (opts c)"
    and "pingOut c \<le> MaxPingCount (opts c)"
  shows "\<exists>c'. ping_rounds E n c = Inr c' \<and>
    status c' = (if int n \<le> MaxPingCount (opts c) - pingOut c then CONNECTED
                 else if AutoReconn (opts c) then RECONNECTING else CLOSED)"
  using client_reach_inv [OF assms(2)] New_inv [OF assms(1)] assms(3-5)
  by (intro ping_rounds_outcome) simp_all

theorem ping_watchdog_witness:
  "\<exists>c'. ping_rounds demo_env 3 demo_up = Inr c' \<and> status c' = RECONNECTING"
proof -
  have "client_reach demo_env \<lparr>onRecv = None, onSendack = None\<rparr> (demo_client, ()) (demo_up, ())"
    by (rule demo_reach)
  from ping_watchdog [OF demo_New this, of 3] show ?thesis
    by (simp add: demo_up_simps demo_options_def WithAutoReconn_def NewOptions_def)
qed

section \<open>Pongs\<close>

text \<open>Pings sent with a channel to signal (or nil) and pongs received.\<close>

datatype ping_op = Ping_Op "nat option" | Pong_Op

fun pp_run :: "env \<Rightarrow> ping_op list \<Rightarrow> client \<Rightarrow> client go" where
  "pp_run E [] c = Inr c"
| "pp_run E (Ping_Op ch # xs) c = go_bind (sendPing E ch c) (\<lambda>(c1, e). pp_run E xs c1)"
| "pp_run E (Pong_Op # xs) c = pp_run E xs (handlePong c)"

fun pings :: "ping_op list \<Rightarrow> nat option list" where
  "pings [] = []"
| "pings (Ping_Op ch # xs) = ch # pings xs"
| "pings (Pong_Op # xs) = pings xs"

text \<open>How many pongs find a ping waiting, when \<open>n\<close> are waiting at first.\<close>

fun served :: "nat \<Rightarrow> ping_op list \<Rightarrow> nat" where
  "served n [] = 0"
| "served n (Ping_Op ch # xs) = served (Suc n) xs"
| "served 0 (Pong_Op # xs) = served 0 xs"
| "served (Suc n) (Pong_Op # xs) = Suc (served n xs)"

definition channels :: "nat option list \<Rightarrow> nat list" where
  "channels ps = concat (map (\<lambda>p. case p of None \<Rightarrow> [] | Some ch \<Rightarrow> [ch]) ps)"

lemma channels_simps [simp]:
  "channels [] = []" "channels (None # ps) = channels ps" "channels (Some k # ps) = k # channels ps"
  by (simp_all add: channels_def)

text \<open>
  C21. Pongs are matched with pings in the order of sending: after any sequence of pings and pongs,
  the pings that were answered are the first ones sent, each pong having signalled the channel of
  its own ping and no other, and the pings still waiting are the rest in their order; pongs that
  nobody waits for are dropped.
\<close>

theorem pongs_match_pings:
  assumes "pongs c = Some ps" and "lw_w (writer c) \<noteq> None"
  shows "\<exists>c'. pp_run E xs c = Inr c' \<and>
    pongs c' = Some (drop (served (length ps) xs) (ps @ pings xs)) \<and>
    signalled c' = signalled c @ channels (take (served (length ps) xs) (ps @ pings xs))"
  using assms
proof (induction xs arbitrary: c ps)
  case (Cons x xs)
  show ?case
  proof (cases x)
    case (Ping_Op ch)
    obtain w e where s: "sendPing E ch c = Inr (c\<lparr>pongs := Some (ps @ [ch]), writer := w\<rparr>, e)"
      using sendPing_returns [OF Cons.prems(2), of E ch] Cons.prems(1) by auto
    have "lw_w w \<noteq> None"
      using shape_of_eqD(4) [OF sendPing_shape [OF s]] Cons.prems(2) by simp
    with s Ping_Op Cons.IH [of "c\<lparr>pongs := Some (ps @ [ch]), writer := w\<rparr>" "ps @ [ch]"]
    show ?thesis by simp
  next
    case Pong_Op
    show ?thesis
    proof (cases ps)
      case Nil
      with Cons.prems Pong_Op Cons.IH [of "handlePong c" "[]"] show ?thesis
        by (simp add: handlePong_def)
    next
      case (Cons p qs)
      have "pongs (handlePong c) = Some qs" "lw_w (writer (handlePong c)) \<noteq> None"
        "signalled (handlePong c) = signalled c @ channels [p]"
        using Cons.prems Cons by (auto simp: handlePong_def split: option.splits)
      with Cons.IH [of "handlePong c" qs] Cons Pong_Op show ?thesis
        by (cases p) auto
    qed
  qed
qed simp

theorem pongs_match_pings_witness:
  "\<exists>c'. pp_run demo_env [Ping_Op (Some 1), Ping_Op None, Pong_Op, Ping_Op (Some 2), Pong_Op, Pong_Op,
       Pong_Op, Ping_Op (Some 3)] demo_up = Inr c' \<and> pongs c' = Some [Some 3] \<and> signalled c' = [1, 2]"
  using pongs_match_pings [of demo_up "[]" demo_env "[Ping_Op (Some 1), Ping_Op None, Pong_Op,
    Ping_Op (Some 2), Pong_Op, Pong_Op, Pong_Op, Ping_Op (Some 3)]"]
  by (simp add: demo_up_simps)

section \<open>The read loop\<close>

lemma handlePackets_append:
  "handlePackets E cb (xs @ ys) c a =
     go_bind (handlePackets E cb xs c a) (\<lambda>(c1, a1). handlePackets E cb ys c1 a1)"
proof (induction xs arbitrary: c a)
  case (Cons x xs)
  show ?case
    by (cases "handlePacket E cb x c a") (auto simp: Cons.IH)
qed simp

lemma sendPacket_opts: "sendPacket E f c = Inr (c', e) \<Longrightarrow> opts c' = opts c"
  by (auto simp: sendPacket_def split: sum.splits dest!: writer_op_others)

lemma handlePacket_opts: "handlePacket E cb frm c a = Inr (c', a') \<Longrightarrow> opts c' = opts c"
  by (auto simp: handlePacket_def Let_def handleRecvPacket_def go_bind_Inr_conv handlePong_def
      split: frame.splits if_splits option.splits list.splits dest!: sendPacket_opts)

lemma handlePackets_keeps:
  "handlePackets E cb fs c a = Inr (c', a') \<Longrightarrow> opts c' = opts c \<and> status c' = status c"
proof (induction fs arbitrary: c a)
  case (Cons f fs)
  then obtain c1 a1 where h: "handlePacket E cb f c a = Inr (c1, a1)"
    and r: "handlePackets E cb fs c1 a1 = Inr (c', a')" by (auto simp: go_bind_Inr_conv)
  from Cons.IH [OF r] handlePacket_opts [OF h] shape_of_eqD(1) [OF handlePacket_shape [OF h]]
  show ?case by simp
qed simp

text \<open>A decoder that reads the frame at the front of its input, whatever follows.\<close>

definition decodes :: "env \<Rightarrow> byte \<Rightarrow> (bytes \<Rightarrow> frame) \<Rightarrow> bytes \<Rightarrow> bool" where
  "decodes E ver pkt f \<longleftrightarrow> (\<forall>rest. DecodeFrame E (f @ rest) ver = Inr (pkt f, length f))"

lemma decode_packets_frames:
  assumes "\<forall>f \<in> set fs. f \<noteq> [] \<and> decodes E ver pkt f" and "length fs < fuel"
  shows "decode_packets fuel E ver (pre @ concat fs) (length pre) ps = Some (Inr (ps @ map pkt fs))"
  using assms
proof (induction fs arbitrary: fuel pre ps)
  case Nil
  then show ?case by (cases fuel) simp_all
next
  case (Cons f fs)
  then obtain fuel' where fuel: "fuel = Suc fuel'" by (cases fuel) simp_all
  have d: "DecodeFrame E (f @ concat fs) ver = Inr (pkt f, length f)"
    using Cons.prems(1) by (simp add: decodes_def)
  have "decode_packets fuel' E ver ((pre @ f) @ concat fs) (length (pre @ f)) (ps @ [pkt f]) =
      Some (Inr ((ps @ [pkt f]) @ map pkt fs))"
    by (rule Cons.IH) (use Cons.prems fuel in simp_all)
  with Cons.prems d show ?case by (simp add: fuel)
qed

lemma handlePacketDatas_frames:
  assumes "\<forall>f \<in> set fs. f \<noteq> [] \<and> decodes E (ProtoVersion (opts c)) pkt f" and "length fs < fuel"
  shows "handlePacketDatas fuel E cb (concat fs) c a =
    Some (go_bind (handlePackets E cb (map pkt fs) c a) (\<lambda>(c1, a1). Inr (c1, a1, None)))"
  using decode_packets_frames [OF assms, of "[]" "[]"] by (simp add: handlePacketDatas_def)

text \<open>One read: its packets are handled, and the loop goes on with the unfinished tail.\<close>

lemma readLoop_chunk:
  assumes "frames K (tmp @ x) = (gs, r)" and "x \<noteq> []" and "\<not> isClosed c"
    and "\<forall>f \<in> set gs. decodes E (ProtoVersion (opts c)) pkt f" and "length gs < fuel"
  shows "readLoop fuel E K cb ((x, None) # rs) tmp c a =
    (case handlePackets E cb (map pkt gs) c a of
       Inl p \<Rightarrow> Some (Inl p) | Inr (c1, a1) \<Rightarrow> readLoop fuel E K cb rs r c1 a1)"
proof (cases "gs = []")
  case True
  with read_chunk_frames [OF assms(2,1)] assms(2,3) show ?thesis by simp
next
  case False
  have gs: "\<forall>f \<in> set gs. f \<noteq> []" using frames_sound [OF assms(1)] is_frame_nonempty by auto
  then have ne: "concat gs \<noteq> []" using False by (cases gs) simp_all
  have h: "handlePacketDatas fuel E cb (concat gs) c a =
      Some (go_bind (handlePackets E cb (map pkt gs) c a) (\<lambda>(c1, a1). Inr (c1, a1, None)))"
    using assms(4,5) gs by (intro handlePacketDatas_frames) auto
  show ?thesis
    by (cases "handlePackets E cb (map pkt gs) c a")
      (use h ne read_chunk_frames [OF assms(2,1)] assms(2,3) in \<open>auto split: prod.splits\<close>)
qed

lemma readLoop_frames:
  assumes "frames K (tmp @ concat cs) = (fs, p)" and "frame_len K tmp = None" and "\<not> isClosed c"
    and "\<forall>f \<in> set fs. decodes E (ProtoVersion (opts c)) pkt f" and "length fs < fuel"
  shows "readLoop fuel E K cb (map (\<lambda>x. (x, None)) cs) tmp c a =
    Some (go_bind (handlePackets E cb (map pkt fs) c a) (\<lambda>(c1, a1). Inr (c1, a1, p)))"
  using assms
proof (induction cs arbitrary: tmp c a fs)
  case Nil
  then show ?case by (simp add: frames.simps [of K tmp])
next
  case (Cons x cs)
  show ?case
  proof (cases "x = []")
    case True
    with Cons show ?thesis by simp
  next
    case False
    obtain gs r where f: "frames K (tmp @ x) = (gs, r)" by fastforce
    obtain hs s where "frames K (r @ concat cs) = (hs, s)" by fastforce
    with frames_append [OF f this] Cons.prems(1)
    have g: "frames K (r @ concat cs) = (hs, p)" and fs: "fs = gs @ hs" by simp_all
    have "frame_len K r = None" using frames_sound [OF f] by auto
    note IH = Cons.IH [OF g this]
    have chunk: "readLoop fuel E K cb ((x, None) # map (\<lambda>x. (x, None)) cs) tmp c a =
      (case handlePackets E cb (map pkt gs) c a of
         Inl p \<Rightarrow> Some (Inl p) | Inr (c1, a1) \<Rightarrow> readLoop fuel E K cb (map (\<lambda>x. (x, None)) cs) r c1 a1)"
      using Cons.prems(4,5) fs by (intro readLoop_chunk [OF f False Cons.prems(3)]) auto
    show ?thesis
    proof (cases "handlePackets E cb (map pkt gs) c a")
      case (Inl q)
      with chunk show ?thesis by (simp add: fs handlePackets_append del: readLoop.simps)
    next
      case (Inr ca)
      obtain c1 a1 where ca: "ca = (c1, a1)" by (cases ca)
      have c1: "opts c1 = opts c" "\<not> isClosed c1"
        using handlePackets_keeps [OF Inr [unfolded ca]] Cons.prems(3) by (simp_all add: isClosed_def)
      have "readLoop fuel E K cb (map (\<lambda>x. (x, None)) cs) r c1 a1 =
          Some (go_bind (handlePackets E cb (map pkt hs) c1 a1) (\<lambda>(c1, a1). Inr (c1, a1, p)))"
        using Cons.prems(4,5) fs c1 by (intro IH) auto
      with chunk Inr ca show ?thesis by (simp add: fs handlePackets_append del: readLoop.simps)
    qed
  qed
qed

text \<open>
  C2. From bytes to callbacks: however the network cuts a stream of packets (and an unfinished
  tail) into reads, empty reads included, the read loop of an open client does exactly what handling
  the decoded packets one after the other in the order of sending does, and keeps the tail for the
  next read. The decoder is only asked to read the packet at the front of its input.
\<close>

theorem readLoop_delivers:
  assumes "\<forall>f \<in> set fs. is_frame K f \<and> decodes E (ProtoVersion (opts c)) pkt f"
    and "frame_len K p = None" and "concat cs = concat fs @ p" and "\<not> isClosed c"
    and "length fs < fuel"
  shows "readLoop fuel E K cb (map (\<lambda>x. (x, None)) cs) [] c a =
    Some (go_bind (handlePackets E cb (map pkt fs) c a) (\<lambda>(c1, a1). Inr (c1, a1, p)))"
proof (rule readLoop_frames)
  show "frames K ([] @ concat cs) = (fs, p)"
    using frames_complete [of fs K p] assms(1-3) by simp
qed (use assms in \<open>simp_all add: frame_len_def\<close>)

theorem readLoop_delivers_witness:
  "\<exists>c'. readLoop 3 demo_env demo_codes \<lparr>onRecv = None, onSendack = None\<rparr>
       (map (\<lambda>x. (x, None)) [[0x80, 0x20], [], [1], [5, 0x30, 2]]) []
       (demo_up\<lparr>pongs := Some [Some 9]\<rparr>) () = Some (Inr (c', (), [0x30, 2])) \<and>
     signalled c' = [9] \<and> InMsgs c' = InMsgs demo_up + 2"
proof -
  let ?rd = "\<lambda>f. if f = [0x80] then Pong_Frame else Other_Frame 32"
  let ?fs = "[[0x80], [0x20, 1, 5]] :: bytes list"
  have "varint_value 4 (1 # 5 # rest) = Some (1, 1)" for rest :: bytes
    by (simp add: eval_nat_numeral)
  then have dl: "decodeLength (1 # 5 # rest) = (1, 1, True)" for rest
    by (simp add: decodeLength_varint)
  have h: "drop_bit 4 (0x80 :: byte) = 8" "drop_bit 4 (0x20 :: byte) = 2" "unat (0x20 :: byte) = 32"
    by code_simp+
  have "is_frame demo_codes [0x80]" "is_frame demo_codes [0x20, 1, 5]" by code_simp+
  moreover have "decodes demo_env 4 ?rd [0x80]" "decodes demo_env 4 ?rd [0x20, 1, 5]"
    by (simp_all add: decodes_def demo_env_def demo_codes_def h dl)
  ultimately have "\<forall>f \<in> set ?fs. is_frame demo_codes f \<and> decodes demo_env 4 ?rd f" by simp
  moreover have "frame_len demo_codes [0x30, 2] = None" by code_simp
  moreover have "ProtoVersion (opts (demo_up\<lparr>pongs := Some [Some 9]\<rparr>)) = 4"
    by (simp add: demo_up_simps demo_options_def NewOptions_def WithAutoReconn_def)
  moreover have "\<not> isClosed (demo_up\<lparr>pongs := Some [Some 9]\<rparr>)"
    by (simp add: isClosed_def demo_up_simps)
  ultimately show ?thesis
    using readLoop_delivers [of ?fs demo_codes demo_env "demo_up\<lparr>pongs := Some [Some 9]\<rparr>" ?rd
      "[0x30, 2]" "[[0x80, 0x20], [], [1], [5, 0x30, 2]]" 3 "\<lparr>onRecv = None, onSendack = None\<rparr>" "()"]
    by (simp add: handlePacket_def handlePong_def Let_def demo_up_simps)
qed

section \<open>Acknowledging messages\<close>

text \<open>The messages that a callback accepts, one after the other, and the state it ends in.\<close>

fun accepted ::
    "(RecvPacket \<Rightarrow> 'a \<Rightarrow> 'a \<times> go_error option) \<Rightarrow> RecvPacket list \<Rightarrow> 'a \<Rightarrow> RecvPacket list \<times> 'a" where
  "accepted f [] a = ([], a)"
| "accepted f (p # ps) a =
     (case f p a of (a1, e) \<Rightarrow> (case accepted f ps a1 of (qs, a2) \<Rightarrow>
        (if e = None then p # qs else qs, a2)))"

definition recvack :: "RecvPacket \<Rightarrow> frame" where
  "recvack p = Recvack_Frame (rp_Framer p) (rp_MessageID p) (rp_MessageSeq p)"

text \<open>A connection below a writer on which writes go through.\<close>

definition wire_up :: "io_writer limWriter \<Rightarrow> bytes \<Rightarrow> bool" where
  "wire_up lw out \<longleftrightarrow>
     (\<exists>cn. lw_w lw = Some (Conn_Writer cn) \<and> \<not> c_closed cn \<and> c_faults cn = [] \<and> c_wire cn = out)"

lemma sendPacket_wire_up:
  assumes "wire_up (writer c) out" and "EncodeFrame E f (ProtoVersion (opts c)) = Inr data"
  obtains c' where "sendPacket E f c = Inr (c', None)" and "wire_up (writer c') (out @ data)"
    and "opts c' = opts c" and "InMsgs c' = InMsgs c"
  using assms
  by (auto simp: wire_up_def sendPacket_def writer_op_def lw_writeDirect_def conn_write_def)

lemma handleRecv_wire:
  assumes "onRecv cb = Some f" and "rp_NoEncrypt p" and "wire_up (writer c) out"
    and "EncodeFrame E (recvack p) (ProtoVersion (opts c)) = Inr (ack p)" and "f p a = (a1, e)"
  obtains c' where "handlePacket E cb (Recv_Frame p) c a = Inr (c', a1)"
    and "wire_up (writer c') (out @ (if e = None then ack p else []))" and "opts c' = opts c"
    and "InMsgs c' = InMsgs c + 1"
proof -
  let ?c = "c\<lparr>InBytes := InBytes c + of_nat (GetFrameSize E (Recv_Frame p)), InMsgs := InMsgs c + 1\<rparr>"
  obtain c' where c': "sendPacket E (recvack p) ?c = Inr (c', None)"
    "wire_up (writer c') (out @ ack p)" "opts c' = opts ?c" "InMsgs c' = InMsgs ?c"
    by (rule sendPacket_wire_up [of ?c out E "recvack p" "ack p"]) (use assms in simp_all)
  show thesis
  proof (cases e)
    case None
    with c' assms show thesis
      by (intro that [of c'])
        (simp_all add: handlePacket_def handleRecvPacket_def deliver_def recvack_def Let_def)
  next
    case (Some err)
    with assms show thesis
      by (intro that [of ?c])
        (simp_all add: handlePacket_def handleRecvPacket_def deliver_def Let_def)
  qed
qed



section \<open>Sending messages\<close>

text \<open>The bytes a client has handed to its writer since the connection (or the reconnecting) began.\<close>

definition out_stream :: "client \<Rightarrow> bytes" where
  "out_stream c =
     (case lw_pending (writer c) of
        Some p \<Rightarrow> p
      | None \<Rightarrow> (case lw_w (writer c) of None \<Rightarrow> [] | Some w \<Rightarrow> c_wire (io_conn w))
                  @ lw_bufs (writer c))"

lemma out_stream_cong: "writer d = writer c \<Longrightarrow> out_stream d = out_stream c"
  unfolding out_stream_def by (erule ssubst) (rule refl)

lemma appendBufs_stream:
  assumes "lw_appendBufs io_Write (writer c) bs = Inr (w', None)"
    and "lw_w (writer c) \<noteq> None"
  shows "out_stream (c\<lparr>writer := w'\<rparr>) = out_stream c @ concat bs"
proof (cases "lw_pending (writer c)")
  case (Some p)
  with assms lw_step_pending [OF Some, of io_Write "W_Append bs"] show ?thesis
    by (auto simp: out_stream_def)
next
  case None
  then obtain w where on: "lw_online (writer c) w" using assms(2) by (auto simp: lw_online_def)
  obtain lw' w1 n e where "lw_step io_Write (writer c) (W_Append bs) = Inr (lw', e)"
    and "lw_online lw' w1"
    and "e = None \<longrightarrow> c_wire (io_conn w1) @ lw_bufs lw' = c_wire (io_conn w) @ lw_bufs (writer c) @ concat bs"
    by (rule io_sink.step_online [OF on, of "W_Append bs"]) auto
  with on assms(1) show ?thesis by (auto simp: out_stream_def lw_online_def)
qed

lemma appendPacket_ok:
  assumes "appendPacket E f c = Inr (c', n, None)" and "lw_w (writer c) \<noteq> None"
  obtains data where "EncodeFrame E f (ProtoVersion (opts c)) = Inr data" and "n = int (length data)"
    and "out_stream c' = out_stream c @ data" and "clientIDGen c' = clientIDGen c"
    and "OutMsgs c' = OutMsgs c + 1" and "OutBytes c' = OutBytes c + of_nat (length data)"
    and "flusherExitChan c' = map_option (\<lambda>_. True) (flusherExitChan c)"
    and "opts c' = opts c" and "aesKey c' = aesKey c" and "salt c' = salt c"
proof -
  obtain data where d: "EncodeFrame E f (ProtoVersion (opts c)) = Inr data"
    using assms(1) by (auto simp: appendPacket_def split: sum.splits)
  let ?c = "c\<lparr>OutBytes := OutBytes c + of_nat (length data), OutMsgs := OutMsgs c + 1\<rparr>"
  obtain w where w: "lw_appendBufs io_Write (writer c) [data] = Inr (w, None)"
    and c': "c' = (if flusherExitChan c \<noteq> Some True then kickFlusher (?c\<lparr>writer := w\<rparr>)
                   else ?c\<lparr>writer := w\<rparr>)" and n: "n = int (length data)"
    using assms(1) d
    by (auto simp: appendPacket_def go_bind_Inr_conv writer_op_def split: option.splits if_splits)
  have "out_stream (?c\<lparr>writer := w\<rparr>) = out_stream c @ data"
    using appendBufs_stream [of ?c "[data]" w] w assms(2) out_stream_cong [of ?c c] by simp
  moreover have "writer c' = w" by (simp add: c' kickFlusher_def)
  ultimately have "out_stream c' = out_stream c @ data"
    using out_stream_cong [of c' "?c\<lparr>writer := w\<rparr>"] by simp
  with d n show thesis
    by (intro that) (auto simp: c' kickFlusher_def)
qed

lemma SendMessage_ok:
  assumes "SendMessage E ch payload opt uuid now c = Inr (c', Inr (pkt, n))"
    and "lw_w (writer c) \<noteq> None"
  shows "\<exists>data. EncodeFrame E (Send_Frame pkt) (ProtoVersion (opts c)) = Inr data \<and>
    out_stream c' = out_stream c @ data \<and> n = int (length data) \<and>
    sp_ClientSeq pkt = clientIDGen c + 1 \<and> clientIDGen c' = sp_ClientSeq pkt \<and>
    sp_ChannelID pkt = ChannelID ch \<and> sp_ChannelType pkt = ChannelType ch \<and>
    (if so_NoEncrypt (apply_send_options opt) then sp_Payload pkt = payload
     else AesEncrypt E payload (aesKey c) (salt c) = Inr (sp_Payload pkt)) \<and>
    OutMsgs c' = OutMsgs c + 1 \<and> OutBytes c' = OutBytes c + of_nat (length data) \<and>
    flusherExitChan c' = map_option (\<lambda>_. True) (flusherExitChan c) \<and>
    opts c' = opts c \<and> aesKey c' = aesKey c \<and> salt c' = salt c"
proof -
  let ?so = "apply_send_options opt"
  obtain np key where np: "(if so_NoEncrypt ?so then Inr payload
        else AesEncrypt E payload (aesKey c) (salt c)) = Inr np"
    and ap: "appendPacket E (Send_Frame pkt)
        (c\<lparr>clientIDGen := clientIDGen c + 1, lastSendMsgTime := Some now\<rparr>) = Inr (c', n, None)"
    and pkt: "pkt = (message_packet ?so ch np uuid (clientIDGen c + 1))\<lparr>sp_MsgKey := key\<rparr>"
    using assms(1)
    by (auto simp: SendMessage_def Let_def go_bind_Inr_conv split: sum.splits option.splits
        if_splits)
  let ?c = "c\<lparr>clientIDGen := clientIDGen c + 1, lastSendMsgTime := Some now\<rparr>"
  obtain data where d: "EncodeFrame E (Send_Frame pkt) (ProtoVersion (opts ?c)) = Inr data"
    "n = int (length data)" "out_stream c' = out_stream ?c @ data" "clientIDGen c' = clientIDGen ?c"
    "OutMsgs c' = OutMsgs ?c + 1" "OutBytes c' = OutBytes ?c + of_nat (length data)"
    "flusherExitChan c' = map_option (\<lambda>_. True) (flusherExitChan ?c)"
    "opts c' = opts ?c" "aesKey c' = aesKey ?c" "salt c' = salt ?c"
    by (rule appendPacket_ok [OF ap]) (use assms(2) in simp_all)
  show ?thesis
    by (rule exI [of _ data])
      (use d np out_stream_cong [of ?c c] in \<open>auto simp: pkt message_packet_def split: if_splits\<close>)
qed

text \<open>
  C8. A message sent without an error is one packet in the output, whole and behind everything sent
  before it, whether the client is connected or collects its output to reconnect; the packet carries
  the next client sequence number, the channel, and the payload (encrypted unless switched off); the
  returned size is the packet's; it is counted; and the flusher, if any, holds a token to send it.
\<close>

theorem SendMessage_appends:
  assumes "SendMessage E ch payload opt uuid now c = Inr (c', Inr (pkt, n))"
    and "lw_w (writer c) \<noteq> None"
  shows "\<exists>data. EncodeFrame E (Send_Frame pkt) (ProtoVersion (opts c)) = Inr data \<and>
    out_stream c' = out_stream c @ data \<and> n = int (length data) \<and>
    sp_ClientSeq pkt = clientIDGen c + 1 \<and> clientIDGen c' = sp_ClientSeq pkt \<and>
    sp_ChannelID pkt = ChannelID ch \<and> sp_ChannelType pkt = ChannelType ch \<and>
    (if so_NoEncrypt (apply_send_options opt) then sp_Payload pkt = payload
     else AesEncrypt E payload (aesKey c) (salt c) = Inr (sp_Payload pkt)) \<and>
    OutMsgs c' = OutMsgs c + 1 \<and> OutBytes c' = OutBytes c + of_nat (length data) \<and>
    flusherExitChan c' = map_option (\<lambda>_. True) (flusherExitChan c)"
  using SendMessage_ok [OF assms] by blast

theorem SendMessage_appends_witness:
  "\<exists>c' pkt. SendMessage demo_env (NewChannel ''room'' 2) [1, 2, 3] [SendOptionWithNoEncrypt True]
       ''uuid'' 0 demo_up = Inr (c', Inr (pkt, 5)) \<and> sp_ClientSeq pkt = clientIDGen demo_up + 1 \<and>
     out_stream c' = out_stream demo_up @ [0x30, 3, 1, 2, 3] \<and> flusherExitChan c' = Some True"
proof -
  let ?s = "SendMessage demo_env (NewChannel ''room'' 2) [1, 2, 3] [SendOptionWithNoEncrypt True]
       ''uuid'' 0 demo_up"
  have ev: "case ?s of Inr (c', Inr (pkt, n)) \<Rightarrow> n = 5 \<and>
      EncodeFrame demo_env (Send_Frame pkt) (ProtoVersion (opts demo_up)) = Inr [0x30, 3, 1, 2, 3] \<and>
      flusherExitChan demo_up = Some False | _ \<Rightarrow> False" by code_simp
  then obtain c' pkt where s: "?s = Inr (c', Inr (pkt, 5))"
    by (cases ?s) (auto split: sum.splits)
  from SendMessage_appends [OF s] ev s show ?thesis
    by (auto simp: demo_up_simps)
qed

section \<open>Agreeing on a key\<close>

text \<open>
  C23. The key agreement. When the server accepts and sends its public key \<open>key\<close> in base64, the
  client ends up connected with the first 16 characters of the digest of the shared secret of its
  own private key and the server's; a 31-byte key is silently completed with a zero byte (the buffer
  the decoder allocates is that large), a longer one cut to 32 bytes, and one of at most 30 bytes
  makes the client panic.
\<close>

theorem handshake_key:
  assumes "ca_ReasonCode a = ReasonSuccess E" and "ca_ServerKey a = b64_EncodeToString key"
    and "\<forall>bs. 16 \<le> length (MD5 E bs)"
  shows "finish_handshake E priv a c =
    (if length key \<le> 30 then Inl Slice_Bounds
     else Inr (c\<lparr>salt := ca_Salt a, aesKey := take 16 (MD5 E (map of_char (b64_EncodeToString
                   (Curve25519Key E priv (take 32 (key @ [0])))))), status := CONNECTED\<rparr>, None))"
proof -
  let ?cap = "(length key + 2) div 3 * 3"
  let ?g = "\<lparr>backing = key @ replicate (?cap - length key) 0, slen = length key\<rparr>"
  have len: "length (backing ?g) = ?cap" by simp
  have dig: "\<not> length (MD5 E bs) < 16" for bs using assms(3) by (simp add: not_less)
  show ?thesis
  proof (cases "length key \<le> 30")
    case True
    then have "?cap < 32" by presburger
    with len have "go_slice ?g 0 32 = Inl Slice_Bounds" by (simp add: go_slice_def)
    with True assms(1,2) show ?thesis
      by (simp add: finish_handshake_def b64_roundtrip server_key32_def Let_def)
  next
    case False
    then have "32 \<le> ?cap" by presburger
    then have s: "go_slice ?g 0 32 = Inr (take 32 (backing ?g))" using len by (simp add: go_slice_def)
    have "take 32 (backing ?g) = take 32 (key @ [0])"
    proof (cases "length key = 31")
      case True
      then have "?cap - length key = Suc 1" by simp
      then have "replicate (?cap - length key) (0 :: byte) = [0, 0]" by simp
      with True show ?thesis by simp
    next
      case False
      with \<open>\<not> length key \<le> 30\<close> show ?thesis by simp
    qed
    with False s assms(1,2) dig show ?thesis
      by (simp add: finish_handshake_def b64_roundtrip server_key32_def Let_def)
  qed
qed

theorem handshake_key_witness:
  "finish_handshake demo_env (replicate 32 1) \<lparr>ca_Salt = ''s'', ca_ServerKey =
       b64_EncodeToString (replicate 30 7), ca_ReasonCode = 1\<rparr> demo_client = Inl Slice_Bounds"
  using handshake_key [of "\<lparr>ca_Salt = ''s'', ca_ServerKey = b64_EncodeToString (replicate 30 7),
      ca_ReasonCode = 1\<rparr>" demo_env "replicate 30 7" "replicate 32 1" demo_client]
  by (simp add: demo_env_def del: b64_EncodeToString.simps)

section \<open>Where connections leave traces\<close>

lemma Connect_None:
  assumes "Connect E h c = Inr (c', None)" and "status c' = CONNECTED"
  obtains c1 where "createConn (hs_dial h) c = Inr (c1, None)"
    and "processConnectInit E h (client_setup c1) = Inr (c', None)"
proof -
  obtain c1 e1 where cr: "createConn (hs_dial h) c = Inr (c1, e1)"
    using assms(1) by (cases "createConn (hs_dial h) c") (auto simp: Connect_def)
  with assms(1) have e1: "e1 = None" by (cases e1) (auto simp: Connect_def)
  obtain c2 e2 where pi: "processConnectInit E h (client_setup c1) = Inr (c2, e2)"
    using assms(1) cr e1
    by (cases "processConnectInit E h (client_setup c1)") (auto simp: Connect_def)
  have "e2 = None"
  proof (rule ccontr)
    assume "e2 \<noteq> None"
    then obtain err where e2: "e2 = Some err" by auto
    then obtain c3 where cl: "close DISCONNECTED c2 = Inr c3"
      using assms(1) cr e1 pi by (cases "close DISCONNECTED c2") (auto simp: Connect_def)
    with assms cr e1 pi e2 show False
      by (cases "AutoReconn (opts c3)") (auto simp: Connect_def Let_def)
  qed
  with assms(1) cr e1 pi that show thesis by (simp add: Connect_def)
qed



lemma sendPacket_pongs: "sendPacket E f c = Inr (c', e) \<Longrightarrow> pongs c' = pongs c \<and> signalled c' = signalled c"
  by (auto simp: sendPacket_def split: sum.splits dest!: writer_op_others)

lemma processConnectInit_pongs:
  assumes "processConnectInit E h c = Inr (c', None)"
  shows "pongs c' = pongs c \<and> signalled c' = signalled c"
proof -
  obtain c1 where s: "sendConnect E (hs_keys h) (hs_uuid h) (hs_now h) (c\<lparr>status := CONNECTING\<rparr>)
      = Inr (c1, None)" and c': "pongs c' = pongs c1 \<and> signalled c' = signalled c1"
    using assms by (auto simp: processConnectInit_def go_bind_Inr_conv Let_def split: option.splits if_splits)
  obtain k1 k2 where k: "hs_keys h = (k1, k2)" by (cases "hs_keys h")
  obtain f c0 where sp: "sendPacket E f (c\<lparr>status := CONNECTING\<rparr>) = Inr (c0, None)"
    and rc: "receive_connack E k1 c0 = Inr (c1, None)"
    using s by (auto simp: sendConnect_def k Let_def go_bind_Inr_conv split: if_splits)
  have "pongs c1 = pongs c0 \<and> signalled c1 = signalled c0"
    using rc by (auto simp: receive_connack_def finish_handshake_def Let_def go_bind_Inr_conv
        split: option.splits prod.splits sum.splits frame.splits if_splits)
  with sendPacket_pongs [OF sp] c' show ?thesis by simp
qed

text \<open>
  C24. A reconnect keeps the list of waiting pings of the old connection, so the first pong on the
  new connection answers the oldest ping of the old one: a flush that waits on it is told that its
  round trip is done, although the server never received its ping on this connection.
\<close>

theorem reconnect_keeps_pings:
  assumes "reconnect_round E h c = Inr (c', Restored)"
  shows "pongs c' = pongs c \<and> (\<forall>ch ps. pongs c = Some (Some ch # ps) \<longrightarrow>
    signalled (handlePong c') = signalled c @ [ch] \<and> pongs (handlePong c') = Some ps)"
proof -
  have "pongs c' = pongs c \<and> signalled c' = signalled c"
    using assms
  proof (cases rule: reconnect_round_cases)
    case (restored c1 c2 c3)
    have "pongs c1 = pongs c \<and> signalled c1 = signalled c"
      using restored(2) by (cases rule: createConn_cases) (auto simp: bindToNewConn_def)
    with processConnectInit_pongs [OF restored(3)] writer_op_others [OF restored(4)] restored(5)
    show ?thesis by auto
  qed (auto simp: give_up_def go_bind_Inr_conv split: if_splits)
  then show ?thesis by (auto simp: handlePong_def)
qed

theorem reconnect_keeps_pings_witness:
  "\<exists>c'. reconnect_round demo_env demo_handshake (demo_client\<lparr>status := RECONNECTING, writer :=
       lw_switchToPending (writer demo_client), pongs := Some [Some 4, None]\<rparr>) = Inr (c', Restored) \<and>
     signalled (handlePong c') = [4]"
proof -
  let ?c = "demo_client\<lparr>status := RECONNECTING, writer := lw_switchToPending (writer demo_client),
    pongs := Some [Some 4, None]\<rparr>"
  let ?r = "reconnect_round demo_env demo_handshake ?c"
  have ev: "case ?r of Inr (c', e) \<Rightarrow> e = Restored | _ \<Rightarrow> False" by code_simp
  then obtain c' where r: "?r = Inr (c', Restored)" by (cases ?r) auto
  from reconnect_keeps_pings [OF r] r show ?thesis
    by (simp add: demo_client_def fresh_client_def)
qed

end
