(* ===== verification/End_To_End.thy ===== *)
theory End_To_End
  imports Client_Behaviour
begin

text \<open>
  From the messages of an application to the packets at the other end of the connection: sending,
  buffering, flushing, the cut of the stream by the network, and its reassembly by \<^verbatim>\<open>parse\<close>, composed.
\<close>

section \<open>A sequence of messages\<close>

record message =
  m_channel :: channel
  m_payload :: bytes
  m_options :: "sendOptions option_fn list"
  m_uuid :: string
  m_now :: int

text \<open>\<open>None\<close> when one of the calls returns an error or panics.\<close>

fun send_all :: "env \<Rightarrow> message list \<Rightarrow> client \<Rightarrow> (client \<times> SendPacket list) option" where
  "send_all E [] c = Some (c, [])"
| "send_all E (m # ms) c =
     (case SendMessage E (m_channel m) (m_payload m) (m_options m) (m_uuid m) (m_now m) c of
        Inr (c1, Inr (packet, n)) \<Rightarrow> map_option (\<lambda>(c2, ps). (c2, packet # ps)) (send_all E ms c1)
      | _ \<Rightarrow> None)"

text \<open>What a packet must carry of its message.\<close>

definition carries :: "env \<Rightarrow> string \<Rightarrow> string \<Rightarrow> message \<Rightarrow> SendPacket \<Rightarrow> bool" where
  "carries E key slt m packet \<longleftrightarrow>
     sp_ChannelID packet = ChannelID (m_channel m) \<and> sp_ChannelType packet = ChannelType (m_channel m) \<and>
     (if so_NoEncrypt (apply_send_options (m_options m)) then sp_Payload packet = m_payload m
      else AesEncrypt E (m_payload m) key slt = Inr (sp_Payload packet))"

definition packet_bytes :: "env \<Rightarrow> byte \<Rightarrow> SendPacket \<Rightarrow> bytes" where
  "packet_bytes E ver p = (case EncodeFrame E (Send_Frame p) ver of Inr data \<Rightarrow> data | Inl e \<Rightarrow> [])"

lemma send_all_ok:
  assumes "send_all E ms c = Some (c', ps)" and "lw_w (writer c) \<noteq> None"
  shows "out_stream c' = out_stream c @ concat (map (packet_bytes E (ProtoVersion (opts c))) ps) \<and>
    list_all (\<lambda>p. EncodeFrame E (Send_Frame p) (ProtoVersion (opts c)) =
       Inr (packet_bytes E (ProtoVersion (opts c)) p)) ps \<and>
    list_all2 (carries E (aesKey c) (salt c)) ms ps \<and>
    map sp_ClientSeq ps = map (\<lambda>i. clientIDGen c + 1 + of_nat i) [0 ..< length ms] \<and>
    opts c' = opts c \<and> shape_of c' = shape_of c"
  using assms
proof (induction ms arbitrary: c ps)
  case (Cons m ms)
  from Cons.prems(1) obtain c1 p n ps1 where
    s: "SendMessage E (m_channel m) (m_payload m) (m_options m) (m_uuid m) (m_now m) c = Inr (c1, Inr (p, n))"
    and r: "send_all E ms c1 = Some (c', ps1)" and ps: "ps = p # ps1"
    by (auto split: sum.splits)
  note ok = SendMessage_ok [OF s Cons.prems(2)]
  have sh: "shape_of c1 = shape_of c" by (rule SendMessage_shape [OF s])
  have "lw_w (writer c1) \<noteq> None" using shape_of_eqD(4) [OF sh] Cons.prems(2) by simp
  note IH = Cons.IH [OF r this]
  have "[0 ..< length (m # ms)] = 0 # map Suc [0 ..< length ms]" by (metis length_Cons map_Suc_upt upt_conv_Cons zero_less_Suc)
  moreover have "carries E (aesKey c) (salt c) m p" using ok by (auto simp: carries_def)
  moreover have "EncodeFrame E (Send_Frame p) (ProtoVersion (opts c)) = Inr (packet_bytes E (ProtoVersion (opts c)) p)"
    and "out_stream c1 = out_stream c @ packet_bytes E (ProtoVersion (opts c)) p"
    using ok by (auto simp: packet_bytes_def)
  moreover have "opts c1 = opts c" "aesKey c1 = aesKey c" "salt c1 = salt c"
    "sp_ClientSeq p = clientIDGen c + 1" "clientIDGen c1 = clientIDGen c + 1" using ok by auto
  ultimately show ?case using IH sh by (simp add: ps algebra_simps)
qed simp

section \<open>From the messages to the packets\<close>

text \<open>A flush without an error puts the packets of the messages on the wire.\<close>

lemma send_all_flushed:
  assumes "send_all E ms c = Some (c', ps)" and "lw_w (writer c) = Some w0"
    and "lw_pending (writer c) = None" and "lw_bufs (writer c) = []"
    and "writer_op (lw_flush io_Write) c' = Inr (c'', None)" and "lw_w (writer c'') = Some w1"
  shows "c_wire (io_conn w1) = c_wire (io_conn w0) @ concat (map (packet_bytes E (ProtoVersion (opts c))) ps)"
proof -
  have ok: "out_stream c' = out_stream c @ concat (map (packet_bytes E (ProtoVersion (opts c))) ps)"
    and sh: "shape_of c' = shape_of c"
    using send_all_ok [OF assms(1)] assms(2) by simp_all
  have "lw_pending (writer c') = None" and "lw_w (writer c') \<noteq> None"
    using shape_of_eqD(4,5) [OF sh] assms(2,3) by simp_all
  then obtain w2 where on: "lw_online (writer c') w2" by (auto simp: lw_online_def)
  obtain w3 n e where f: "lw_flush io_Write (writer c') = Inr ((writer c')\<lparr>lw_w := Some w3, lw_bufs := []\<rparr>, e)"
    "c_wire (io_conn w3) = c_wire (io_conn w2) @ take n (lw_bufs (writer c'))"
    "e = None \<longrightarrow> n = length (lw_bufs (writer c'))"
    by (rule io_sink.flush_online [OF on])
  from f(1) assms(5,6) have "w3 = w1" "e = None" by (auto simp: writer_op_def)
  with f(2,3) on have "c_wire (io_conn w1) = out_stream c'"
    by (simp add: out_stream_def lw_online_def)
  then show ?thesis using ok assms(2-4) by (simp add: out_stream_def)
qed

text \<open>Chunks that make up whole frames are handed on whole, and decode to the frames' packets.\<close>

lemma chunks_decoded:
  assumes "concat cs = concat fs" and "\<forall>f \<in> set fs. is_frame K f \<and> decodes E ver pkt f"
  shows "\<exists>pds pss. read_chunks K [] cs = (pds, []) \<and>
    list_all2 (\<lambda>pd ps. \<exists>fuel. decode_packets fuel E ver pd 0 [] = Some (Inr ps)) pds pss \<and>
    concat pss = map pkt fs"
proof -
  obtain pds left where r: "read_chunks K [] cs = (pds, left)" by fastforce
  obtain fss where fss: "pds = map concat fss" "frames K (concat cs) = (concat fss, left)"
    by (rule read_chunks_start [OF r])
  have "frames K (concat fs) = (fs, [])"
    using frames_complete [of fs K "[]"] assms(2) by (auto simp: frame_len_def)
  with fss(2) assms(1) have whole: "concat fss = fs" and left: "left = []" by simp_all
  have "\<exists>fuel. decode_packets fuel E ver (concat gs) 0 [] = Some (Inr (map pkt gs))" if "gs \<in> set fss" for gs
  proof -
    have "set gs \<subseteq> set fs" using that whole by (metis UN_upper set_concat)
    then have "\<forall>f \<in> set gs. f \<noteq> [] \<and> decodes E ver pkt f" using assms(2) is_frame_nonempty by blast
    from decode_packets_frames [OF this lessI, of "[]" "[]"] show ?thesis
      by (intro exI [of _ "Suc (length gs)"]) (simp del: decode_packets.simps)
  qed
  then have "list_all2 (\<lambda>pd ps. \<exists>fuel. decode_packets fuel E ver pd 0 [] = Some (Inr ps)) pds (map (map pkt) fss)"
    by (auto simp: fss(1) list_all2_conv_all_nth)
  moreover have "concat (map (map pkt) fss) = map pkt fs" by (simp flip: map_concat add: whole)
  ultimately show ?thesis using r left by blast
qed

text \<open>
  C3. What is sent arrives. A client that is not reconnecting and has nothing buffered sends some
  messages and flushes its buffer without an error. However the network cuts what went over the
  connection, the splitter at the other end hands on whole packets only, keeps nothing back, and
  decoding what it hands on gives the packets of the messages, in their order, with consecutive
  sequence numbers, each with the channel and the (encrypted) payload of its message. Of the protocol
  package this needs that a packet it encodes is one frame and decodes to itself.
\<close>

theorem sent_messages_arrive:
  assumes "send_all E ms c = Some (c', ps)" and "lw_w (writer c) = Some w0"
    and "lw_pending (writer c) = None" and "lw_bufs (writer c) = []"
    and "writer_op (lw_flush io_Write) c' = Inr (c'', None)" and "lw_w (writer c'') = Some w1"
    and "c_wire (io_conn w1) = c_wire (io_conn w0) @ concat cs"
    and codec: "\<forall>p \<in> set ps. \<forall>data. EncodeFrame E (Send_Frame p) (ProtoVersion (opts c)) = Inr data \<longrightarrow>
      is_frame K data \<and> (\<forall>rest. DecodeFrame E (data @ rest) (ProtoVersion (opts c)) = Inr (Send_Frame p, length data))"
  shows "\<exists>pds pss. read_chunks K [] cs = (pds, []) \<and>
    list_all2 (\<lambda>pd fs. \<exists>fuel. decode_packets fuel E (ProtoVersion (opts c)) pd 0 [] = Some (Inr fs)) pds pss \<and>
    concat pss = map Send_Frame ps \<and> list_all2 (carries E (aesKey c) (salt c)) ms ps \<and>
    map sp_ClientSeq ps = map (\<lambda>i. clientIDGen c + 1 + of_nat i) [0 ..< length ms]"
proof -
  let ?v = "ProtoVersion (opts c)"
  let ?b = "packet_bytes E ?v"
  let ?pkt = "\<lambda>f. case DecodeFrame E f ?v of Inr (x, k) \<Rightarrow> x | Inl e \<Rightarrow> Ping_Frame"
  have enc: "list_all (\<lambda>p. EncodeFrame E (Send_Frame p) ?v = Inr (?b p)) ps"
    and ms: "list_all2 (carries E (aesKey c) (salt c)) ms ps"
      "map sp_ClientSeq ps = map (\<lambda>i. clientIDGen c + 1 + of_nat i) [0 ..< length ms]"
    using send_all_ok [OF assms(1)] assms(2) by simp_all
  have fr: "is_frame K (?b p)" "\<And>rest. DecodeFrame E (?b p @ rest) ?v = Inr (Send_Frame p, length (?b p))"
    if "p \<in> set ps" for p
    using codec enc that by (auto simp: list_all_iff)
  have pkt: "?pkt (?b p) = Send_Frame p" "decodes E ?v ?pkt (?b p)" if "p \<in> set ps" for p
    using fr(2) [OF that] fr(2) [OF that, of "[]"] by (simp_all add: decodes_def)
  have "concat cs = concat (map ?b ps)" using send_all_flushed [OF assms(1-6)] assms(7) by simp
  moreover have "\<forall>f \<in> set (map ?b ps). is_frame K f \<and> decodes E ?v ?pkt f"
    using fr(1) pkt(2) by simp
  ultimately obtain pds pss where
    "read_chunks K [] cs = (pds, [])"
    "list_all2 (\<lambda>pd fs. \<exists>fuel. decode_packets fuel E ?v pd 0 [] = Some (Inr fs)) pds pss"
    "concat pss = map ?pkt (map ?b ps)" using chunks_decoded [of cs "map ?b ps" K E ?v ?pkt] by blast
  moreover have "map ?pkt (map ?b ps) = map Send_Frame ps" using pkt(1) by simp
  ultimately show ?thesis using ms by auto
qed

text \<open>A protocol for the example: a byte for the sequence number and the payload in a frame.\<close>

definition demo_packet :: "u64 \<Rightarrow> bytes \<Rightarrow> SendPacket" where
  "demo_packet n payload =
     message_packet (apply_send_options [SendOptionWithNoEncrypt True]) (NewChannel ''room'' 2) payload ''id'' n"

definition demo_codec :: env where
  "demo_codec = demo_env
     \<lparr>EncodeFrame := (\<lambda>f v. Inr (case f of
         Send_Frame p \<Rightarrow> 0x30 # varint_bytes (Suc (length (sp_Payload p))) @ ucast (sp_ClientSeq p) # sp_Payload p
       | _ \<Rightarrow> [0x10, 0])),
      DecodeFrame := (\<lambda>bs v. case decodeLength (drop 1 bs) of (n, k, ok) \<Rightarrow>
         let body = take (nat n) (drop (1 + k) bs)
         in Inr (Send_Frame (demo_packet (ucast (hd body)) (tl body)), 1 + k + nat n))\<rparr>"

definition demo_message :: "bytes \<Rightarrow> message" where
  "demo_message payload = \<lparr>m_channel = NewChannel ''room'' 2, m_payload = payload,
     m_options = [SendOptionWithNoEncrypt True], m_uuid = ''id'', m_now = 0\<rparr>"

definition demo_packets :: "SendPacket list" where
  "demo_packets = [demo_packet 1 [1, 2, 3], demo_packet 2 []]"

lemma demo_codec_frames:
  "\<forall>p \<in> set demo_packets. \<forall>data. EncodeFrame demo_codec (Send_Frame p) v = Inr data \<longrightarrow>
     is_frame demo_codes data \<and> (\<forall>rest. DecodeFrame demo_codec (data @ rest) v = Inr (Send_Frame p, length data))"
proof -
  have enc: "EncodeFrame demo_codec (Send_Frame (demo_packet 1 [1, 2, 3])) v = Inr [0x30, 4, 1, 1, 2, 3]"
    "EncodeFrame demo_codec (Send_Frame (demo_packet 2 [])) v = Inr [0x30, 1, 2]" by code_simp+
  have fr: "is_frame demo_codes [0x30, 4, 1, 1, 2, 3]" "is_frame demo_codes [0x30, 1, 2]" by code_simp+
  have one: "decodeLength (d # xs) = (int (unat d), 1, True)" if "unat d < 128" for d xs
    using decodeLength_varint [of "d # xs"] varint_value.simps(3) [of 3 d xs] that
    by (simp add: numeral_eq_Suc del: varint_value.simps)
  have "DecodeFrame demo_codec ([0x30, 4, 1, 1, 2, 3] @ rest) v = Inr (Send_Frame (demo_packet 1 [1, 2, 3]), 6)"
    "DecodeFrame demo_codec ([0x30, 1, 2] @ rest) v = Inr (Send_Frame (demo_packet 2 []), 3)" for rest
    by (simp_all add: demo_codec_def one)
  with enc fr show ?thesis by (simp add: demo_packets_def)
qed

lemma demo_sent:
  obtains c' c'' w where "send_all demo_codec [demo_message [1, 2, 3], demo_message []] demo_up = Some (c', demo_packets)"
    and "writer_op (lw_flush io_Write) c' = Inr (c'', None)" and "lw_w (writer c'') = Some w"
    and "c_wire (io_conn w) = [0x10, 0, 0x30, 4, 1, 1, 2, 3, 0x30, 1, 2]"
proof -
  have "case send_all demo_codec [demo_message [1, 2, 3], demo_message []] demo_up of
      None \<Rightarrow> False | Some (c', ps) \<Rightarrow> ps = demo_packets \<and>
      (case writer_op (lw_flush io_Write) c' of Inr (c'', e) \<Rightarrow> e = None \<and>
         (case lw_w (writer c'') of None \<Rightarrow> False | Some w \<Rightarrow>
            c_wire (io_conn w) = [0x10, 0, 0x30, 4, 1, 1, 2, 3, 0x30, 1, 2]) | _ \<Rightarrow> False)"
    by code_simp
  then show thesis using that by (auto split: option.splits sum.splits)
qed

theorem sent_messages_arrive_witness:
  "\<exists>c' pds pss. send_all demo_codec [demo_message [1, 2, 3], demo_message []] demo_up = Some (c', demo_packets) \<and>
     read_chunks demo_codes [] [[0x30, 4], [1, 1, 2], [3, 0x30, 1, 2]] = (pds, []) \<and>
     concat pss = map Send_Frame demo_packets \<and> map sp_ClientSeq demo_packets = [1, 2]"
proof -
  let ?cs = "[[0x30, 4], [1, 1, 2], [3, 0x30, 1, 2]] :: bytes list"
  obtain c' c'' w where r: "send_all demo_codec [demo_message [1, 2, 3], demo_message []] demo_up = Some (c', demo_packets)"
    and f: "writer_op (lw_flush io_Write) c' = Inr (c'', None)" "lw_w (writer c'') = Some w"
    and wire: "c_wire (io_conn w) = [0x10, 0, 0x30, 4, 1, 1, 2, 3, 0x30, 1, 2]"
    by (rule demo_sent)
  from sent_messages_arrive [OF r demo_up_simps(3-5) f _ demo_codec_frames, of ?cs]
  obtain pds pss where "read_chunks demo_codes [] ?cs = (pds, [])" "concat pss = map Send_Frame demo_packets"
    by (auto simp: wire demo_conn_def)
  moreover have "map sp_ClientSeq demo_packets = [1, 2]" by code_simp
  ultimately show ?thesis using r by (intro exI [of _ c'] exI [of _ pds] exI [of _ pss]) simp
qed

end
