(* ===== verification/Flusher_Wakeup.thy ===== *)
theory Flusher_Wakeup
  imports Client_Behaviour
begin

text \<open>
  The hand-shake between the senders and the flusher: \<^verbatim>\<open>appendPacket\<close> first puts the packet into the
  buffer and later, as a separate action, leaves a token in the channel of capacity one; the flusher
  takes a token and later flushes. Between these actions the others run.
\<close>

text \<open>
  \<open>fs_kicks\<close> counts the senders between the two actions of \<^verbatim>\<open>appendPacket\<close>, \<open>fs_awake\<close> tells whether
  the flusher has taken a token and not yet flushed.
\<close>

record flush_state =
  fs_client :: client
  fs_kicks :: nat
  fs_awake :: bool

inductive flush_step :: "flush_state \<Rightarrow> flush_state \<Rightarrow> bool" where
  append: "writer_op (\<lambda>w. lw_appendBufs io_Write w [data]) (fs_client s) = Inr (c, None) \<Longrightarrow>
     flush_step s (s\<lparr>fs_client := c, fs_kicks := fs_kicks s + 1\<rparr>)"
| kick: "0 < fs_kicks s \<Longrightarrow>
     flush_step s (s\<lparr>fs_client := (if flusherExitChan (fs_client s) \<noteq> Some True
                                  then kickFlusher (fs_client s) else fs_client s),
                    fs_kicks := fs_kicks s - 1\<rparr>)"
| take: "\<not> fs_awake s \<Longrightarrow> flusherExitChan (fs_client s) = Some True \<Longrightarrow>
     flush_step s (s\<lparr>fs_client := (fs_client s)\<lparr>flusherExitChan := Some False\<rparr>, fs_awake := True\<rparr>)"
| flush: "fs_awake s \<Longrightarrow>
     flusher_round (conn (fs_client s)) (fs_client s) = Inr (c, True) \<Longrightarrow>
     flush_step s (s\<lparr>fs_client := c, fs_awake := False\<rparr>)"

inductive flush_reach :: "flush_state \<Rightarrow> flush_state \<Rightarrow> bool" for s0 where
  init: "flush_reach s0 s0"
| step: "flush_reach s0 s \<Longrightarrow> flush_step s s' \<Longrightarrow> flush_reach s0 s'"

text \<open>A connected client whose writer writes to its connection and whose flusher has its channel.\<close>

definition flusher_up :: "client \<Rightarrow> bool" where
  "flusher_up c \<longleftrightarrow> status c = CONNECTED \<and> lw_pending (writer c) = None \<and>
     lw_w (writer c) \<noteq> None \<and> flusherExitChan c \<noteq> None"

definition flush_inv :: "flush_state \<Rightarrow> bool" where
  "flush_inv s \<longleftrightarrow> flusher_up (fs_client s) \<and>
     (lw_buffered (writer (fs_client s)) = 0 \<or> flusherExitChan (fs_client s) = Some True \<or>
      0 < fs_kicks s \<or> fs_awake s)"

lemma flusher_up_same:
  assumes "shape_of c' = shape_of c" and "flusher_up c"
  shows "flusher_up c'"
proof -
  have "sh_chan (shape_of c') = sh_chan (shape_of c)" by (simp only: assms(1))
  with assms(2) shape_of_eqD(1,4,5) [OF assms(1)] show ?thesis by (simp add: flusher_up_def)
qed

lemma flusher_round_up:
  assumes "flusher_up c"
  obtains c' where "flusher_round (conn c) c = Inr (c', True)" and "lw_buffered (writer c') = 0"
    and "flusher_up c'"
proof -
  obtain w where w: "lw_w (writer c) = Some w" using assms by (auto simp: flusher_up_def)
  obtain w' n e where wr: "io_Write w (lw_bufs (writer c)) = (w', n, e)" by (cases "io_Write w (lw_bufs (writer c))") auto
  obtain c' where r: "flusher_round (conn c) c = Inr (c', True)" and b: "lw_buffered (writer c') = 0"
    using assms w wr
    by (cases "lw_bufs (writer c) = []") (auto simp: flusher_round_def flusher_up_def isConnected_def isConnecting_def writer_op_def
        lw_flush_def lw_buffered_def split: if_splits)
  show thesis
    by (rule that [OF r b flusher_up_same [OF flusher_round_shape [OF r] assms]])
qed

lemma flush_step_inv:
  assumes "flush_step s s'" and "flush_inv s"
  shows "flush_inv s'"
  using assms(1)
proof cases
  case (append data c)
  then show ?thesis
    using assms(2) flusher_up_same [OF append_shape [OF append(2)]] by (simp add: flush_inv_def)
next
  case kick
  have "flusher_up (kickFlusher (fs_client s))" "flusherExitChan (kickFlusher (fs_client s)) = Some True"
    using assms(2) by (auto simp: flush_inv_def flusher_up_def kickFlusher_def)
  with kick assms(2) show ?thesis by (auto simp: flush_inv_def)
next
  case take
  with assms(2) show ?thesis by (auto simp: flush_inv_def flusher_up_def)
next
  case (flush c)
  obtain c' where "flusher_round (conn (fs_client s)) (fs_client s) = Inr (c', True)"
    "lw_buffered (writer c') = 0" "flusher_up c'"
    using assms(2) by (auto simp: flush_inv_def intro: flusher_round_up)
  with flush show ?thesis by (simp add: flush_inv_def)
qed

lemma flush_reach_inv: "flush_reach s0 s \<Longrightarrow> flush_inv s0 \<Longrightarrow> flush_inv s"
  by (induction rule: flush_reach.induct) (auto intro: flush_step_inv)

text \<open>
  C10. No wake-up is lost: however senders and flusher interleave, a connected client that starts
  with an empty buffer never has unsent bytes with nobody to send them (a token, a sender that is
  about to leave one, or the awake flusher), and in a state where only new packets could move
  anything, everything has been handed to the connection.
\<close>

theorem no_lost_wakeup:
  assumes "flusher_up c" and "lw_bufs (writer c) = []"
    and "flush_reach \<lparr>fs_client = c, fs_kicks = 0, fs_awake = False\<rparr> s"
  shows "(lw_buffered (writer (fs_client s)) = 0 \<or> flusherExitChan (fs_client s) = Some True \<or>
      0 < fs_kicks s \<or> fs_awake s) \<and>
    ((\<forall>s'. flush_step s s' \<longrightarrow> fs_kicks s' = fs_kicks s + 1) \<longrightarrow>
      lw_buffered (writer (fs_client s)) = 0)"
proof -
  have "flush_inv \<lparr>fs_client = c, fs_kicks = 0, fs_awake = False\<rparr>"
    using assms(1,2) by (auto simp: flush_inv_def flusher_up_def lw_buffered_def)
  then have inv: "flush_inv s" by (rule flush_reach_inv [OF assms(3)])
  have "lw_buffered (writer (fs_client s)) = 0"
    if quiet: "\<forall>s'. flush_step s s' \<longrightarrow> fs_kicks s' = fs_kicks s + 1"
  proof (rule ccontr)
    assume ne: "lw_buffered (writer (fs_client s)) \<noteq> 0"
    obtain c' where r: "flusher_round (conn (fs_client s)) (fs_client s) = Inr (c', True)"
      using inv by (auto simp: flush_inv_def intro: flusher_round_up)
    from inv ne consider "0 < fs_kicks s" | "fs_awake s"
      | "\<not> fs_awake s" "flusherExitChan (fs_client s) = Some True"
      by (auto simp: flush_inv_def)
    then show False
      using quiet [rule_format, OF flush_step.kick] quiet [rule_format, OF flush_step.flush [OF _ r]]
        quiet [rule_format, OF flush_step.take] by cases auto
  qed
  with inv show ?thesis by (simp add: flush_inv_def)
qed

theorem no_lost_wakeup_witness:
  "\<exists>c. flush_reach \<lparr>fs_client = demo_up, fs_kicks = 0, fs_awake = False\<rparr>
         \<lparr>fs_client = c, fs_kicks = 1, fs_awake = False\<rparr> \<and> lw_buffered (writer c) = 2 \<and>
     (lw_buffered (writer c) = 0 \<or> flusherExitChan c = Some True \<or> 0 < (1 :: nat))"
proof -
  let ?w = "\<lambda>w. lw_appendBufs io_Write w [[1, 2]]"
  let ?s0 = "\<lparr>fs_client = demo_up, fs_kicks = 0, fs_awake = False\<rparr>"
  have ev: "case writer_op ?w demo_up of Inr (c, e) \<Rightarrow> e = None \<and> lw_buffered (writer c) = 2 \<and>
      flusherExitChan demo_up = Some False | _ \<Rightarrow> False" by code_simp
  then obtain c where c: "writer_op ?w demo_up = Inr (c, None)" by (cases "writer_op ?w demo_up") auto
  have r: "flush_reach ?s0 \<lparr>fs_client = c, fs_kicks = 1, fs_awake = False\<rparr>"
    using flush_step.append [of "[1, 2]" ?s0 c] c
    by (auto intro: flush_reach.intros)
  have "flusher_up demo_up" using ev c by (simp add: flusher_up_def demo_up_simps)
  from no_lost_wakeup [OF this demo_up_simps(5) r] r ev c show ?thesis by auto
qed

end
