(* ===== verification/Timer_Pool.thy ===== *)
theory Timer_Pool
  imports Main
begin

text \<open>
  The pool of timers of \<^verbatim>\<open>pkg/client/timer.go\<close>, which \<^verbatim>\<open>FlushTimeout\<close> takes its timer
  from. A timer has a deadline while it runs, and its channel holds at most one value. \<^verbatim>\<open>sync.Pool\<close> may
  hand out any of the pooled timers, or none.
\<close>

section \<open>Timers\<close>

record timer =
  tm_deadline :: "int option"
  tm_ready :: bool

definition NewTimer :: "int \<Rightarrow> int \<Rightarrow> timer" where
  "NewTimer now d = \<lparr>tm_deadline = Some (now + d), tm_ready = False\<rparr>"

definition tm_Reset :: "int \<Rightarrow> int \<Rightarrow> timer \<Rightarrow> timer" where
  "tm_Reset now d t = t\<lparr>tm_deadline := Some (now + d)\<rparr>"

definition tm_Stop :: "timer \<Rightarrow> timer \<times> bool" where
  "tm_Stop t = (t\<lparr>tm_deadline := None\<rparr>, tm_deadline t \<noteq> None)"

definition tm_receive :: "timer \<Rightarrow> timer" where
  "tm_receive t = t\<lparr>tm_ready := False\<rparr>"

definition tm_tick :: "int \<Rightarrow> timer \<Rightarrow> timer" where
  "tm_tick now t =
     (case tm_deadline t of
        None \<Rightarrow> t
      | Some x \<Rightarrow> if x \<le> now then \<lparr>tm_deadline = None, tm_ready = True\<rparr> else t)"

section \<open>The pool\<close>

type_synonym timerPool = "timer list"

definition tp_Get :: "nat option \<Rightarrow> int \<Rightarrow> int \<Rightarrow> timerPool \<Rightarrow> timer \<times> timerPool" where
  "tp_Get pick now d p =
     (case pick of
        None \<Rightarrow> (NewTimer now d, p)
      | Some i \<Rightarrow>
          if i < length p then (tm_Reset now d (p ! i), take i p @ drop (Suc i) p)
          else (NewTimer now d, p))"

definition tp_Put :: "timer \<Rightarrow> timerPool \<Rightarrow> timerPool" where
  "tp_Put t p =
     (case tm_Stop t of (t1, stopped) \<Rightarrow> (if stopped then t1 else tm_receive t1) # p)"

section \<open>No stale ticks\<close>

text \<open>A running timer has nothing in its channel; pooled timers neither run nor hold a value.\<close>

definition timer_ok :: "timer \<Rightarrow> bool" where
  "timer_ok t \<longleftrightarrow> (tm_ready t \<longrightarrow> tm_deadline t = None)"

definition pool_ok :: "timerPool \<Rightarrow> bool" where
  "pool_ok p \<longleftrightarrow> list_all (\<lambda>t. tm_deadline t = None \<and> \<not> tm_ready t) p"

lemma timer_ok_tick: "timer_ok t \<Longrightarrow> timer_ok (tm_tick now t)"
  by (cases "tm_deadline t") (auto simp: timer_ok_def tm_tick_def)

lemma timer_ok_receive: "timer_ok t \<Longrightarrow> timer_ok (tm_receive t)"
  by (simp add: timer_ok_def tm_receive_def)

lemma tp_Put_ok: "timer_ok t \<Longrightarrow> pool_ok p \<Longrightarrow> pool_ok (tp_Put t p)"
  by (auto simp: timer_ok_def pool_ok_def tp_Put_def tm_Stop_def tm_receive_def)

lemma tp_Get_fresh:
  assumes "pool_ok p" and "tp_Get pick now d p = (t, p')"
  shows "timer_ok t \<and> \<not> tm_ready t \<and> tm_deadline t = Some (now + d) \<and> pool_ok p'"
proof -
  have "pool_ok (take i p @ drop (Suc i) p)" for i
    using assms(1) by (auto simp: pool_ok_def list_all_iff dest: in_set_takeD in_set_dropD)
  moreover have "\<not> tm_ready (p ! i)" if "i < length p" for i
    using assms(1) that by (auto simp: pool_ok_def list_all_iff)
  ultimately show ?thesis
    using assms
    by (auto simp: tp_Get_def NewTimer_def tm_Reset_def timer_ok_def split: option.splits if_splits)
qed

text \<open>A timer that comes out of the pool is not ready before its time, whatever it went through before.\<close>

fun ticks :: "int list \<Rightarrow> timer \<Rightarrow> timer" where
  "ticks [] t = t"
| "ticks (now # nows) t = ticks nows (tm_tick now t)"

lemma not_ready_early:
  "\<not> tm_ready t \<Longrightarrow> tm_deadline t = Some x \<Longrightarrow> list_all (\<lambda>now. now < x) nows \<Longrightarrow> \<not> tm_ready (ticks nows t)"
  by (induction nows arbitrary: t) (auto simp: tm_tick_def)

lemma pooled_timer_not_early:
  assumes "pool_ok p" and "tp_Get pick now d p = (t, p')" and "list_all (\<lambda>n. n < now + d) nows"
  shows "\<not> tm_ready (ticks nows t)"
  using tp_Get_fresh [OF assms(1,2)] assms(3) not_ready_early by blast

end
