(* ===== verification/Go_Float.thy ===== *)
theory Go_Float
  imports Prelude "HOL-Library.Log_Nat"
begin

text \<open>
  The \<^verbatim>\<open>float64\<close> arithmetic that the program decides with: rounding to 53 significant bits, ties to
  even, and the correctly rounded square root, on exact integers.
\<close>

section \<open>Floating point\<close>

text \<open>
  The values that occur are integers, square roots of them, and halves: all multiples of
  \<open>2 ^ -52\<close> once they are rounded to the 53 significant bits of a \<^verbatim>\<open>float64\<close>. A value is given by
  its numerator over \<open>2 ^ 52\<close>. \<open>half_even n d\<close> is \<open>n / d\<close> rounded to the nearest integer, ties to
  the even one; \<open>fl\<close> rounds a value to 53 bits.
\<close>

definition one52 :: int where
  "one52 = 2 ^ 52"

definition half_even :: "int \<Rightarrow> int \<Rightarrow> int" where
  "half_even num den =
     (let q = num div den; r = num mod den
      in if den < 2 * r \<or> den = 2 * r \<and> odd q then q + 1 else q)"

definition spare_bits :: "int \<Rightarrow> nat" where
  "spare_bits X = nat (bitlen X - 53)"

definition fl :: "int \<Rightarrow> int" where
  "fl X = sgn X * (half_even \<bar>X\<bar> (2 ^ spare_bits \<bar>X\<bar>) * 2 ^ spare_bits \<bar>X\<bar>)"

function isqrt :: "int \<Rightarrow> int" where
  "isqrt n =
     (if n \<le> 0 then 0
      else let r = 2 * isqrt (n div 4) in if (r + 1) * (r + 1) \<le> n then r + 1 else r)"
  by pat_completeness auto
termination by (relation "measure nat") auto

declare isqrt.simps [simp del]

text \<open>\<^verbatim>\<open>math.Sqrt\<close> of a value of at least 1: the root, rounded to 53 bits.\<close>

definition fl_sqrt :: "int \<Rightarrow> int" where
  "fl_sqrt X =
     (let Y = X * one52; r = isqrt Y; k = spare_bits r; q = r div 2 ^ k; mid = (2 * q + 1) * 2 ^ k
      in if mid * mid < 4 * Y \<or> mid * mid = 4 * Y \<and> odd q then (q + 1) * 2 ^ k else q * 2 ^ k)"

subsection \<open>The rounded values\<close>

lemma isqrt_bounds: "0 \<le> n \<Longrightarrow> 0 \<le> isqrt n \<and> isqrt n * isqrt n \<le> n \<and> n < (isqrt n + 1) * (isqrt n + 1)"
proof (induction n rule: isqrt.induct)
  case (1 n)
  show ?case
  proof (cases "n = 0")
    case False
    define s where "s = isqrt (n div 4)"
    have s: "0 \<le> s" "s * s \<le> n div 4" "n div 4 < (s + 1) * (s + 1)"
      using "1.IH" "1.prems" False by (simp_all add: s_def)
    have lo: "4 * (s * s) \<le> n" and hi: "n < 4 * ((s + 1) * (s + 1))"
      using s(2,3) by linarith+
    show ?thesis
      using s(1) lo hi "1.prems" False
      by (subst (1 2 3 4 5) isqrt.simps) (auto simp: Let_def s_def [symmetric] algebra_simps)
  qed (use "1.prems" in \<open>simp add: isqrt.simps [of 0]\<close>)
qed

lemma isqrt_ge: "0 \<le> R \<Longrightarrow> R * R \<le> n \<Longrightarrow> R \<le> isqrt n"
proof (rule ccontr)
  assume "0 \<le> R" "R * R \<le> n" "\<not> R \<le> isqrt n"
  then have "isqrt n + 1 \<le> R" by simp
  moreover have b: "0 \<le> isqrt n \<and> n < (isqrt n + 1) * (isqrt n + 1)"
    using isqrt_bounds [of n] \<open>R * R \<le> n\<close> by (meson order_trans zero_le_square)
  ultimately have "(isqrt n + 1) * (isqrt n + 1) \<le> R * R" by (intro mult_mono) auto
  with b \<open>R * R \<le> n\<close> show False by simp
qed

lemma isqrt_le: "0 \<le> n \<Longrightarrow> n \<le> R * R \<Longrightarrow> 0 \<le> R \<Longrightarrow> isqrt n \<le> R"
  using isqrt_bounds [of n] by (smt (verit) mult_strict_mono)

lemma square_less: "0 \<le> a \<Longrightarrow> a < b \<Longrightarrow> a * a < b * (b :: int)"
  by (intro mult_strict_mono) simp_all

lemma half_even_dvd: "0 < d \<Longrightarrow> d dvd X \<Longrightarrow> half_even X d * d = X"
  by (simp add: half_even_def dvd_eq_mod_eq_0 Let_def)

lemma half_even_ge: "0 < d \<Longrightarrow> d dvd R \<Longrightarrow> R \<le> X \<Longrightarrow> R \<le> half_even X d * d"
proof -
  assume a: "0 < d" "d dvd R" "R \<le> X"
  then obtain R' where R: "R = R' * d" by (metis dvd_def mult.commute)
  then have "R' \<le> X div d" using a by (metis nonzero_mult_div_cancel_right order_less_irrefl zdiv_mono1)
  then have "R' \<le> half_even X d" by (simp add: half_even_def Let_def)
  then show ?thesis using a(1) R by (simp add: mult_right_mono)
qed

lemma half_even_le: "0 < d \<Longrightarrow> d dvd R \<Longrightarrow> X \<le> R \<Longrightarrow> half_even X d * d \<le> R"
proof -
  assume a: "0 < d" "d dvd R" "X \<le> R"
  then obtain R' where R: "R = R' * d" by (metis dvd_def mult.commute)
  have "half_even X d \<le> R'"
  proof (cases "X = R")
    case True
    with a R show ?thesis by (simp add: half_even_def Let_def)
  next
    case False
    then have "X < R' * d" using a(3) R by simp
    have "X div d < R'"
    proof (rule ccontr)
      assume "\<not> X div d < R'"
      then have "R' * d \<le> X div d * d" using a(1) by (intro mult_right_mono) simp_all
      also have "\<dots> \<le> X" using a(1) by (simp add: minus_mod_eq_div_mult [symmetric])
      finally show False using \<open>X < R' * d\<close> by simp
    qed
    then show ?thesis by (simp add: half_even_def Let_def)
  qed
  then show ?thesis using a(1) R by (simp add: mult_right_mono)
qed

lemma half_even_error:
  assumes "0 < d"
  shows "2 * \<bar>half_even X d * d - X\<bar> \<le> d"
proof -
  define q r where "q = X div d" and "r = X mod d"
  have X: "X = q * d + r" by (simp add: q_def r_def)
  have r: "0 \<le> r" "r < d" using assms by (simp_all add: r_def)
  show ?thesis
  proof (cases "d < 2 * r \<or> d = 2 * r \<and> odd q")
    case True
    then have "half_even X d * d - X = d - r"
      unfolding half_even_def q_def [symmetric] r_def [symmetric] Let_def if_P [OF True]
      by (simp add: X algebra_simps)
    with True r show ?thesis by auto
  next
    case False
    then have "half_even X d * d - X = - r"
      unfolding half_even_def q_def [symmetric] r_def [symmetric] Let_def if_not_P [OF False]
      by (simp add: X)
    with False r show ?thesis by auto
  qed
qed

lemma spare_bits_le: "X < 2 ^ (53 + j) \<Longrightarrow> spare_bits X \<le> j"
  using bitlen_le_iff_power [of X "53 + int j"] by (simp add: spare_bits_def nat_add_distrib)

lemma pow_spare_bits_dvd: "X < 2 ^ (53 + j) \<Longrightarrow> 2 ^ spare_bits X dvd (a * 2 ^ j :: int)"
  by (metis dvd_mult le_imp_power_dvd spare_bits_le)

lemma fl_nonneg: "0 \<le> X \<Longrightarrow> fl X = half_even X (2 ^ spare_bits X) * 2 ^ spare_bits X"
  by (cases "X = 0") (simp_all add: fl_def half_even_def spare_bits_def)

lemma fl_neg: "fl (- X) = - fl X"
  by (simp add: fl_def)

text \<open>A value of at most 53 significant bits is not changed, and rounding never passes one.\<close>

lemma fl_exact: "0 \<le> a \<Longrightarrow> a < 2 ^ 53 \<Longrightarrow> fl (a * 2 ^ j) = a * 2 ^ j"
proof -
  assume a: "0 \<le> a" "a < 2 ^ 53"
  then have "a * 2 ^ j < 2 ^ (53 + j)" by (simp add: power_add)
  then show ?thesis using a by (simp add: fl_nonneg half_even_dvd pow_spare_bits_dvd)
qed

lemma fl_ge: "0 \<le> X \<Longrightarrow> X < 2 ^ (53 + j) \<Longrightarrow> a * 2 ^ j \<le> X \<Longrightarrow> a * 2 ^ j \<le> fl X"
  by (simp add: fl_nonneg half_even_ge pow_spare_bits_dvd)

lemma fl_le: "0 \<le> X \<Longrightarrow> X < 2 ^ (53 + j) \<Longrightarrow> X \<le> a * 2 ^ j \<Longrightarrow> fl X \<le> a * 2 ^ j"
  by (simp add: fl_nonneg half_even_le pow_spare_bits_dvd)

lemma fl_sqrt_ge:
  assumes "0 \<le> X" and "isqrt (X * one52) < 2 ^ (53 + j)" and "0 \<le> a"
    and "a * 2 ^ j * (a * 2 ^ j) \<le> X * one52"
  shows "a * 2 ^ j \<le> fl_sqrt X"
proof -
  let ?r = "isqrt (X * one52)" and ?R = "a * 2 ^ j :: int"
  let ?d = "2 ^ spare_bits ?r :: int"
  have "?R \<le> ?r" using assms(3,4) by (intro isqrt_ge) simp_all
  obtain R' where R: "?R = R' * ?d"
    using pow_spare_bits_dvd [OF assms(2), of a] by (metis dvd_def mult.commute)
  have "R' * ?d div ?d \<le> ?r div ?d" using \<open>?R \<le> ?r\<close> unfolding R by (rule zdiv_mono1) simp
  then have "R' \<le> ?r div ?d" by simp
  then have "R' * ?d \<le> ?r div ?d * ?d" "R' * ?d \<le> (?r div ?d + 1) * ?d" by (simp_all add: mult_right_mono)
  then show ?thesis unfolding R by (simp add: fl_sqrt_def Let_def)
qed

lemma fl_sqrt_le:
  assumes "0 \<le> X" and "isqrt (X * one52) < 2 ^ (53 + j)" and "0 \<le> a"
    and "X * one52 \<le> a * 2 ^ j * (a * 2 ^ j)"
  shows "fl_sqrt X \<le> a * 2 ^ j"
proof -
  let ?r = "isqrt (X * one52)" and ?R = "a * 2 ^ j :: int"
  let ?d = "2 ^ spare_bits ?r :: int"
  let ?q = "?r div ?d"
  have Y: "0 \<le> X * one52" using assms(1) by (simp add: one52_def)
  have "?r \<le> ?R" using assms(3,4) Y by (intro isqrt_le) simp_all
  obtain R' where R: "?R = R' * ?d"
    using pow_spare_bits_dvd [OF assms(2), of a] by (metis dvd_def mult.commute)
  have "?r div ?d \<le> R' * ?d div ?d" using \<open>?r \<le> ?R\<close> unfolding R by (rule zdiv_mono1) simp
  then have "?q \<le> R'" by simp
  show ?thesis
  proof (cases "?q = R'")
    case True
    let ?mid = "(2 * ?q + 1) * ?d"
    have "?mid = 2 * ?R + ?d" unfolding True R by (simp add: algebra_simps)
    then have "2 * ?R < ?mid" by simp
    then have "(2 * ?R) * (2 * ?R) < ?mid * ?mid"
      using square_less [of "2 * ?R" ?mid] assms(3) by simp
    then have "4 * (X * one52) < ?mid * ?mid" using assms(4) by simp
    then have "fl_sqrt X = ?q * ?d" by (simp add: fl_sqrt_def Let_def)
    then show ?thesis using True R by simp
  next
    case False
    with \<open>?q \<le> R'\<close> have "?q * ?d \<le> R' * ?d" "(?q + 1) * ?d \<le> R' * ?d"
      by (auto intro!: mult_right_mono)
    then show ?thesis unfolding R by (simp add: fl_sqrt_def Let_def)
  qed
qed

end
