(* ===== verification/Test_Client.thy ===== *)
theory Test_Client
  imports Client_Demo
begin

text \<open>
  The test client of \<^verbatim>\<open>server/client.go\<close>, which wraps a client and measures it, the statistics of
  \<^verbatim>\<open>server/stats.go\<close>, and their collection in \<^verbatim>\<open>server/task_stats.go\<close>. The counters are 64-bit
  in the code and count messages, bytes and nanoseconds; they are unbounded here. Times are readings
  of the clock, given to each operation.
\<close>

section \<open>Statistics\<close>

record stats =
  s_online :: int
  s_offline :: int
  s_send :: int
  s_sendRate :: int
  s_sendSuccess :: int
  s_sendErr :: int
  s_sendBytes :: int
  s_sendBytesRate :: int
  s_sendMinLatency :: int
  s_sendMaxLatency :: int
  s_sendAvgLatency :: int
  s_recv :: int
  s_expectRecv :: int
  s_recvRate :: int
  s_recvBytes :: int
  s_recvBytesRate :: int
  s_recvMinLatency :: int
  s_recvMaxLatency :: int
  s_recvAvgLatency :: int

definition zero_stats :: stats where
  "zero_stats =
     \<lparr>s_online = 0, s_offline = 0, s_send = 0, s_sendRate = 0, s_sendSuccess = 0, s_sendErr = 0,
      s_sendBytes = 0, s_sendBytesRate = 0, s_sendMinLatency = 0, s_sendMaxLatency = 0,
      s_sendAvgLatency = 0, s_recv = 0, s_expectRecv = 0, s_recvRate = 0, s_recvBytes = 0,
      s_recvBytesRate = 0, s_recvMinLatency = 0, s_recvMaxLatency = 0, s_recvAvgLatency = 0\<rparr>"

section \<open>The test client\<close>

record testClient =
  tc_cli :: client
  preSendCount :: int
  sendCount :: int
  sendBytes :: int
  preSendBytes :: int
  preRecv :: int
  recvCount :: int
  recvBytes :: int
  preRecvBytes :: int
  sendSuccess :: int
  sendErr :: int
  sendMap :: "u64 \<rightharpoonup> int"
  sendSuccessMap :: "int \<rightharpoonup> int"
  tc_uid :: string
  tc_stopped :: bool

definition newTestClient :: "byte \<Rightarrow> string \<Rightarrow> string \<Rightarrow> testClient go" where
  "newTestClient LatestVersion tcpAddr uid =
     go_bind (New LatestVersion tcpAddr
        [Some (WithUID uid), Some (WithAutoReconn False), Some (WithDefaultBufSize (1024 * 100))])
       (\<lambda>cli. Inr \<lparr>tc_cli = cli, preSendCount = 0, sendCount = 0, sendBytes = 0, preSendBytes = 0,
          preRecv = 0, recvCount = 0, recvBytes = 0, preRecvBytes = 0, sendSuccess = 0, sendErr = 0,
          sendMap = Map.empty, sendSuccessMap = Map.empty, tc_uid = uid, tc_stopped = False\<rparr>)"

text \<open>The updates of a minimum (0 when there is none yet) and a maximum.\<close>

definition min_latency :: "int \<Rightarrow> int \<Rightarrow> int" where
  "min_latency cur latency = (if cur = 0 \<or> latency < cur then latency else cur)"

definition max_latency :: "int \<Rightarrow> int \<Rightarrow> int" where
  "max_latency cur latency = (if cur < latency then latency else cur)"

text \<open>
  The callback for a received message; \<open>from\<close> is the map of acknowledged messages of the sender,
  when the sender is one of the test clients. The first component counts the messages of the server.
\<close>

definition onRecv_test ::
    "int \<Rightarrow> int \<Rightarrow> (int \<rightharpoonup> int) option \<Rightarrow> RecvPacket \<Rightarrow> int \<times> testClient \<times> stats
       \<Rightarrow> int \<times> testClient \<times> stats" where
  "onRecv_test now sz from recv st =
     (case st of (testCount, t, s) \<Rightarrow>
        let t1 = t\<lparr>recvCount := recvCount t + 1, recvBytes := recvBytes t + sz\<rparr>
        in (testCount + 1, t1,
            case Option.bind from (\<lambda>m. m (rp_MessageID recv)) of
              None \<Rightarrow> s
            | Some start \<Rightarrow>
                (let latency = now - start
                 in s\<lparr>s_recvMinLatency := min_latency (s_recvMinLatency s) latency,
                      s_recvMaxLatency := max_latency (s_recvMaxLatency s) latency,
                      s_recvAvgLatency :=
                        go_div (s_recvAvgLatency s * recvCount t1 + latency) (recvCount t1 + 1)\<rparr>)))"

text \<open>The callback for the receipt of a sent message.\<close>

definition onSendack_test ::
    "env \<Rightarrow> int \<Rightarrow> SendackPacket \<Rightarrow> testClient \<times> stats \<Rightarrow> testClient \<times> stats" where
  "onSendack_test E now ack st =
     (case st of (t, s) \<Rightarrow>
        (case (case sendMap t (sa_ClientSeq ack) of
                 None \<Rightarrow> (t, s)
               | Some start \<Rightarrow>
                   (let latency = now - start
                    in (t\<lparr>sendSuccessMap := (sendSuccessMap t)(sa_MessageID ack \<mapsto> start),
                          sendMap := (sendMap t)(sa_ClientSeq ack := None)\<rparr>,
                        s\<lparr>s_sendMinLatency := min_latency (s_sendMinLatency s) latency,
                          s_sendMaxLatency := max_latency (s_sendMaxLatency s) latency,
                          s_sendAvgLatency :=
                            go_div (s_sendAvgLatency s * sendSuccess t + latency) (sendSuccess t + 1)\<rparr>)))
         of (t1, s1) \<Rightarrow>
           (if sa_ReasonCode ack = ReasonSuccess E then t1\<lparr>sendSuccess := sendSuccess t1 + 1\<rparr>
            else t1\<lparr>sendErr := sendErr t1 + 1\<rparr>, s1)))"

text \<open>One tick of \<^verbatim>\<open>cleanLoop\<close>: entries older than 40 seconds go.\<close>

definition clean_tick :: "int \<Rightarrow> testClient \<Rightarrow> testClient" where
  "clean_tick now t =
     t\<lparr>sendSuccessMap := (\<lambda>k. case sendSuccessMap t k of
         None \<Rightarrow> None
       | Some v \<Rightarrow> if 40000 < go_div (now - v) 1000000 then None else Some v)\<rparr>"

text \<open>
  \<^verbatim>\<open>send\<close>: handing the message to the client, and entering its number into \<open>sendMap\<close>; callbacks can
  run between the two.
\<close>

definition send_begin ::
    "env \<Rightarrow> channel \<Rightarrow> bytes \<Rightarrow> string \<Rightarrow> int \<Rightarrow> testClient \<Rightarrow> (testClient \<times> (go_error + u64)) go" where
  "send_begin E ch payload uuid now t =
     go_bind (SendMessage E ch payload [] uuid now (tc_cli t)) (\<lambda>(c, r).
       let t1 = t\<lparr>sendCount := sendCount t + 1, tc_cli := c\<rparr>
       in case r of
            Inl err \<Rightarrow> Inr (t1\<lparr>sendErr := sendErr t1 + 1\<rparr>, Inl err)
          | Inr (packet, dataSize) \<Rightarrow>
              Inr (t1\<lparr>sendBytes := sendBytes t1 + dataSize\<rparr>, Inr (sp_ClientSeq packet)))"

definition send_record :: "int \<Rightarrow> u64 \<Rightarrow> testClient \<Rightarrow> testClient" where
  "send_record now seq t = t\<lparr>sendMap := (sendMap t)(seq \<mapsto> now)\<rparr>"

definition tc_send ::
    "env \<Rightarrow> channel \<Rightarrow> bytes \<Rightarrow> string \<Rightarrow> int \<Rightarrow> int \<Rightarrow> testClient \<Rightarrow> (testClient \<times> go_error option) go"
  where
  "tc_send E ch payload uuid now now2 t =
     go_bind (send_begin E ch payload uuid now t) (\<lambda>(t1, r).
       case r of Inl err \<Rightarrow> Inr (t1, Some err) | Inr seq \<Rightarrow> Inr (send_record now2 seq t1, None))"

definition tc_connect :: "env \<Rightarrow> handshake \<Rightarrow> testClient \<Rightarrow> (testClient \<times> go_error option) go" where
  "tc_connect E h t = go_bind (Connect E h (tc_cli t)) (\<lambda>(c, e). Inr (t\<lparr>tc_cli := c\<rparr>, e))"

definition tc_isConnected :: "testClient \<Rightarrow> bool" where
  "tc_isConnected t = isConnected (tc_cli t)"

definition tc_close :: "testClient \<Rightarrow> testClient go" where
  "tc_close t =
     (if tc_stopped t then Inl Close_Of_Closed
      else go_bind (Close (tc_cli t)) (\<lambda>c. Inr (t\<lparr>tc_stopped := True, tc_cli := c\<rparr>)))"

section \<open>Collecting the statistics\<close>

definition countOnline :: "testClient list \<Rightarrow> stats \<Rightarrow> stats" where
  "countOnline clients s =
     (let online = length (filter tc_isConnected clients)
      in s\<lparr>s_online := int online, s_offline := int (length clients) - int online\<rparr>)"

text \<open>\<^verbatim>\<open>expectRecvMsgCount\<close>, over the send counts of the channels.\<close>

definition expectRecvMsgCount :: "int list \<Rightarrow> int \<Rightarrow> int" where
  "expectRecvMsgCount sends subscriber_online =
     sum_list (map (\<lambda>n. n * (subscriber_online - 1)) sends)"

text \<open>The batch sums of one round of \<^verbatim>\<open>countMsg\<close>, and what the round leaves in a client.\<close>

record batch =
  b_send :: int
  b_sendBytes :: int
  b_recv :: int
  b_recvBytes :: int

definition client_batch :: "testClient \<Rightarrow> batch" where
  "client_batch c =
     \<lparr>b_send = sendCount c - preSendCount c, b_sendBytes = sendBytes c - preSendBytes c,
      b_recv = recvCount c - preRecv c, b_recvBytes = recvBytes c - preRecvBytes c\<rparr>"

definition mark_counted :: "testClient \<Rightarrow> testClient" where
  "mark_counted c =
     c\<lparr>preSendCount := sendCount c, preSendBytes := sendBytes c, preRecv := recvCount c,
       preRecvBytes := recvBytes c\<rparr>"

definition total :: "('a \<Rightarrow> int) \<Rightarrow> 'a list \<Rightarrow> int" where
  "total f xs = sum_list (map f xs)"

definition countMsg ::
    "int \<Rightarrow> int list \<Rightarrow> int option \<Rightarrow> testClient list \<Rightarrow> stats \<Rightarrow> testClient list \<times> stats" where
  "countMsg intervalSecond channel_expect p2p_sent clients s =
     (map mark_counted clients,
      s\<lparr>s_send := total sendCount clients,
        s_sendRate := go_div (total (\<lambda>c. b_send (client_batch c)) clients) intervalSecond,
        s_sendSuccess := total sendSuccess clients,
        s_sendErr := total sendErr clients,
        s_sendBytes := total sendBytes clients,
        s_sendBytesRate := go_div (total (\<lambda>c. b_sendBytes (client_batch c)) clients) intervalSecond,
        s_recv := total recvCount clients,
        s_recvBytes := total recvBytes clients,
        s_recvRate := go_div (total (\<lambda>c. b_recv (client_batch c)) clients) intervalSecond,
        s_recvBytesRate := go_div (total (\<lambda>c. b_recvBytes (client_batch c)) clients) intervalSecond,
        s_expectRecv := sum_list channel_expect + (case p2p_sent of None \<Rightarrow> 0 | Some n \<Rightarrow> n)\<rparr>)"

section \<open>Properties\<close>

text \<open>Successful receipts, one after the other, each with the time of its arrival.\<close>

fun ack_run :: "env \<Rightarrow> (int \<times> SendackPacket) list \<Rightarrow> testClient \<times> stats \<Rightarrow> testClient \<times> stats" where
  "ack_run E [] st = st"
| "ack_run E ((now, ack) # as) st = ack_run E as (onSendack_test E now ack st)"

text \<open>What the send statistics say after receipts with the latencies \<open>ls\<close>.\<close>

definition latency_inv :: "int list \<Rightarrow> testClient \<times> stats \<Rightarrow> bool" where
  "latency_inv ls st \<longleftrightarrow>
     (case st of (t, s) \<Rightarrow>
        sendSuccess t = int (length ls) \<and> (\<forall>l \<in> set ls. 0 < l) \<and>
        (if ls = [] then s_sendMinLatency s = 0 \<and> s_sendMaxLatency s = 0 \<and> s_sendAvgLatency s = 0
         else s_sendMinLatency s = Min (set ls) \<and> s_sendMaxLatency s = Max (set ls) \<and>
              Min (set ls) \<le> s_sendAvgLatency s \<and> s_sendAvgLatency s \<le> Max (set ls)))"

lemma running_average:
  fixes avg l k m M :: int
  assumes "0 \<le> k" and "m \<le> l" and "l \<le> M" and "0 < m"
    and "0 < k \<Longrightarrow> m \<le> avg \<and> avg \<le> M"
  shows "m \<le> go_div (avg * k + l) (k + 1) \<and> go_div (avg * k + l) (k + 1) \<le> M"
proof -
  have lo: "m * k \<le> avg * k" and hi: "avg * k \<le> M * k"
    using assms(1,5) by (cases "k = 0"; simp add: mult_right_mono)+
  have nn: "0 \<le> m * k" using assms(1,4) by simp
  have "0 \<le> avg * k + l" using lo nn assms(2,4) by linarith
  then have "go_div (avg * k + l) (k + 1) = (avg * k + l) div (k + 1)"
    using assms(1) by (intro go_div_nonneg) simp_all
  moreover have "m * (k + 1) div (k + 1) \<le> (avg * k + l) div (k + 1)"
    using lo assms by (intro zdiv_mono1) (simp_all add: algebra_simps)
  moreover have "(avg * k + l) div (k + 1) \<le> M * (k + 1) div (k + 1)"
    using hi assms by (intro zdiv_mono1) (simp_all add: algebra_simps)
  moreover have "k + 1 \<noteq> 0" using assms(1) by simp
  ultimately show ?thesis by simp
qed

lemma latency_step:
  assumes "latency_inv ls (t, s)" and "sendMap t (sa_ClientSeq ack) = Some start" and "start < now"
    and "sa_ReasonCode ack = ReasonSuccess E"
  shows "latency_inv (ls @ [now - start]) (onSendack_test E now ack (t, s))"
proof -
  let ?l = "now - start"
  have avg: "Min (set (ls @ [?l])) \<le> go_div (s_sendAvgLatency s * int (length ls) + ?l) (int (length ls) + 1) \<and>
      go_div (s_sendAvgLatency s * int (length ls) + ?l) (int (length ls) + 1) \<le> Max (set (ls @ [?l]))"
  proof (rule running_average)
    show "0 < Min (set (ls @ [?l]))"
      using assms(1,3) by (auto simp: latency_inv_def)
    assume "0 < int (length ls)"
    then have ne: "ls \<noteq> []" by simp
    then have "Min (set ls) \<le> s_sendAvgLatency s" "s_sendAvgLatency s \<le> Max (set ls)"
      using assms(1) by (auto simp: latency_inv_def)
    then show "Min (set (ls @ [?l])) \<le> s_sendAvgLatency s \<and>
        s_sendAvgLatency s \<le> Max (set (ls @ [?l]))"
      using ne by (simp add: min.coboundedI2 max.coboundedI2)
  qed auto
  show ?thesis
  proof (cases "ls = []")
    case True
    with assms avg show ?thesis
      by (auto simp: latency_inv_def onSendack_test_def min_latency_def max_latency_def Let_def)
  next
    case False
    then have pos: "0 < Min (set ls)" using assms(1) by (simp add: latency_inv_def)
    have ins: "set (ls @ [?l]) = insert ?l (set ls)" and ne: "set ls \<noteq> {}" using False by simp_all
    have "Min (set (ls @ [?l])) = min_latency (Min (set ls)) ?l"
      and "Max (set (ls @ [?l])) = max_latency (Max (set ls)) ?l"
      using pos unfolding ins Min_insert [OF finite_set ne] Max_insert [OF finite_set ne]
      by (simp_all only: min_latency_def max_latency_def min_def max_def) auto
    with False assms avg show ?thesis
      by (auto simp: latency_inv_def onSendack_test_def Let_def simp del: Min_insert Max_insert)
  qed
qed

text \<open>A successful receipt takes its entry out of \<open>sendMap\<close> and leaves the others.\<close>

lemma ack_entries:
  assumes "onSendack_test E now ack (t1, s1) = (t2, s2)" and "sa_ReasonCode ack = ReasonSuccess E"
    and "sendMap t1 (sa_ClientSeq ack) = Some start"
  shows "sendMap t2 = (sendMap t1)(sa_ClientSeq ack := None)"
  using assms by (auto simp: onSendack_test_def Let_def)

lemma ack_run_latencies:
  assumes "latency_inv ls0 (t1, s1)" and "distinct (map (sa_ClientSeq \<circ> snd) xs)"
    and "\<forall>(now, ack) \<in> set xs. sa_ReasonCode ack = ReasonSuccess E \<and>
           (\<exists>start. sendMap t1 (sa_ClientSeq ack) = Some start \<and> start < now)"
  shows "latency_inv (ls0 @ map (\<lambda>(now, ack). now - the (sendMap t1 (sa_ClientSeq ack))) xs)
        (ack_run E xs (t1, s1)) \<and>
      dom (sendMap (fst (ack_run E xs (t1, s1)))) = dom (sendMap t1) - set (map (sa_ClientSeq \<circ> snd) xs)"
  using assms
proof (induction xs arbitrary: ls0 t1 s1)
  case (Cons x xs)
  let ?f = "sa_ClientSeq \<circ> snd"
  obtain now ack where x: "x = (now, ack)" by (cases x)
  obtain start where st: "sendMap t1 (sa_ClientSeq ack) = Some start" "start < now"
    and ok: "sa_ReasonCode ack = ReasonSuccess E"
    using Cons.prems(3) x by auto
  obtain t2 s2 where o2: "onSendack_test E now ack (t1, s1) = (t2, s2)"
    by (cases "onSendack_test E now ack (t1, s1)")
  note m2 = ack_entries [OF o2 ok st(1)]
  have d: "?f x \<notin> ?f ` set xs" "distinct (map ?f xs)"
    using Cons.prems(2) unfolding list.map distinct.simps set_map by blast+
  have same: "sendMap t2 (sa_ClientSeq (snd y)) = sendMap t1 (sa_ClientSeq (snd y))" if "y \<in> set xs" for y
  proof -
    have "?f y \<noteq> ?f x" using d(1) imageI [OF that, of ?f] by metis
    then show ?thesis by (simp add: m2 x)
  qed
  have "latency_inv (ls0 @ [now - start]) (t2, s2)"
    using latency_step [OF Cons.prems(1) st ok] o2 by simp
  moreover have "\<forall>(now, ack) \<in> set xs. sa_ReasonCode ack = ReasonSuccess E \<and>
         (\<exists>start. sendMap t2 (sa_ClientSeq ack) = Some start \<and> start < now)"
    using Cons.prems(3) same by fastforce
  moreover have "map (\<lambda>(now, ack). now - the (sendMap t2 (sa_ClientSeq ack))) xs =
      map (\<lambda>(now, ack). now - the (sendMap t1 (sa_ClientSeq ack))) xs"
    using same by (intro map_cong) auto
  moreover have "dom (sendMap t2) - set (map ?f xs) = dom (sendMap t1) - set (map ?f (x # xs))"
    using x m2 by auto
  ultimately show ?case
    using Cons.IH [OF _ d(2), of "ls0 @ [now - start]" t2 s2] x st o2
    by (simp only: append_assoc append_Cons append_Nil list.map prod.case ack_run.simps option.sel simp_thms)
qed simp

text \<open>
  C31. The send latencies are measured correctly: after any number of successful receipts for
  distinct messages entered before, with statistics that start at zero, the minimum and the maximum
  are those of the latencies measured, the average lies between them, and the success counter and
  the open messages are right.
\<close>

theorem send_latency_statistics:
  assumes "sendSuccess t = 0" and "s_sendMinLatency s = 0" and "s_sendMaxLatency s = 0"
    and "s_sendAvgLatency s = 0" and "as \<noteq> []"
    and "distinct (map (sa_ClientSeq \<circ> snd) as)"
    and "\<forall>(now, ack) \<in> set as. sa_ReasonCode ack = ReasonSuccess E \<and>
           (\<exists>start. sendMap t (sa_ClientSeq ack) = Some start \<and> start < now)"
  shows "case ack_run E as (t, s) of (t', s') \<Rightarrow>
    (let ls = map (\<lambda>(now, ack). now - the (sendMap t (sa_ClientSeq ack))) as
     in s_sendMinLatency s' = Min (set ls) \<and> s_sendMaxLatency s' = Max (set ls) \<and>
        Min (set ls) \<le> s_sendAvgLatency s' \<and> s_sendAvgLatency s' \<le> Max (set ls) \<and>
        sendSuccess t' = int (length as) \<and>
        dom (sendMap t') = dom (sendMap t) - set (map (sa_ClientSeq \<circ> snd) as))"
proof -
  have "latency_inv [] (t, s)" using assms(1-4) by (simp add: latency_inv_def)
  from ack_run_latencies [OF this assms(6,7)] assms(5) show ?thesis
    by (auto simp: latency_inv_def Let_def split: prod.splits)
qed

text \<open>A fresh test client, and receipts for it.\<close>

definition demo_tc :: testClient where
  "demo_tc = \<lparr>tc_cli = demo_up, preSendCount = 0, sendCount = 0, sendBytes = 0, preSendBytes = 0,
     preRecv = 0, recvCount = 0, recvBytes = 0, preRecvBytes = 0, sendSuccess = 0, sendErr = 0,
     sendMap = Map.empty, sendSuccessMap = Map.empty, tc_uid = ''u'', tc_stopped = False\<rparr>"

definition demo_ack :: "u64 \<Rightarrow> SendackPacket" where
  "demo_ack seq = \<lparr>sa_ClientSeq = seq, sa_MessageID = uint seq + 100, sa_ReasonCode = 1\<rparr>"

theorem send_latency_statistics_witness:
  "case ack_run demo_env [(9, demo_ack 1), (7, demo_ack 2)]
     (demo_tc\<lparr>sendMap := [1 \<mapsto> 2, 2 \<mapsto> 3]\<rparr>, zero_stats) of (t', s') \<Rightarrow>
     s_sendMinLatency s' = 4 \<and> s_sendMaxLatency s' = 7 \<and> 4 \<le> s_sendAvgLatency s'"
proof -
  let ?t = "demo_tc\<lparr>sendMap := [1 \<mapsto> 2, 2 \<mapsto> 3]\<rparr>"
  let ?as = "[(9, demo_ack 1), (7, demo_ack 2)]"
  have "distinct (map (sa_ClientSeq \<circ> snd) ?as)" by (simp add: demo_ack_def)
  moreover have "\<forall>(now, ack) \<in> set ?as. sa_ReasonCode ack = ReasonSuccess demo_env \<and>
      (\<exists>start. sendMap ?t (sa_ClientSeq ack) = Some start \<and> start < now)"
    by (simp add: demo_ack_def demo_env_def)
  ultimately show ?thesis
    using send_latency_statistics [of ?t zero_stats ?as demo_env]
    by (simp add: demo_tc_def zero_stats_def demo_ack_def split: prod.splits)
qed

text \<open>
  The first receive latency is halved: when a fresh test client gets its first message, from a
  sender whose receipt is known, the minimum and the maximum become the latency, but the average
  becomes half of it, since the message has been counted already; the average reported is then
  smaller than the minimum.
\<close>

lemma recv_average_halved:
  assumes "recvCount t = 0" and "s_recvAvgLatency s = 0" and "s_recvMinLatency s = 0"
    and "s_recvMaxLatency s = 0" and "m (rp_MessageID p) = Some start" and "start < now"
  shows "case onRecv_test now sz (Some m) p (n, t, s) of (n', t', s') \<Rightarrow>
    s_recvMinLatency s' = now - start \<and> s_recvMaxLatency s' = now - start \<and>
    s_recvAvgLatency s' = (now - start) div 2 \<and> s_recvAvgLatency s' < s_recvMinLatency s' \<and>
    recvCount t' = 1 \<and> recvBytes t' = recvBytes t + sz \<and> n' = n + 1"
proof -
  have "go_div (now - start) 2 = (now - start) div 2"
    using assms(6) by (intro go_div_nonneg) simp_all
  with assms show ?thesis
    by (simp add: onRecv_test_def min_latency_def max_latency_def Let_def)
qed

lemma recv_average_halved_witness:
  "\<exists>p. case onRecv_test 110 5 (Some [42 \<mapsto> 10]) p (0, demo_tc, zero_stats) of (n', t', s') \<Rightarrow>
     s_recvMinLatency s' = 100 \<and> s_recvAvgLatency s' = 50"
proof -
  obtain p :: RecvPacket where p: "rp_MessageID p = 42"
    by (rule that [of "\<lparr>rp_Framer = \<lparr>NoPersist = False, SyncOnce = False, RedDot = False\<rparr>,
      rp_NoEncrypt = True, rp_MessageID = 42, rp_MessageSeq = 1, rp_FromUID = ''u'', rp_Payload = []\<rparr>"])
      simp
  have "case onRecv_test 110 5 (Some [42 \<mapsto> 10]) p (0, demo_tc, zero_stats) of (n', t', s') \<Rightarrow>
     s_recvMinLatency s' = 100 \<and> s_recvAvgLatency s' = 50"
    using recv_average_halved [of demo_tc zero_stats "[42 \<mapsto> 10]" p 10 110 5 0] p
    by (simp add: demo_tc_def zero_stats_def split: prod.splits)
  then show ?thesis by (rule exI [of _ p])
qed

text \<open>
  The receipt may come too early: \<^verbatim>\<open>send\<close> enters the number of a message only after handing the
  message to the client. A receipt handled afterwards closes the entry and is measured; one handled
  before is counted but not measured, and the entry then made stays open for ever, so that the
  sender's map of acknowledged messages never gets the message either.
\<close>

theorem early_receipt:
  assumes "sendMap t (sa_ClientSeq ack) = None" and "sa_ReasonCode ack = ReasonSuccess E"
  shows "(case onSendack_test E now ack (send_record sent (sa_ClientSeq ack) t, s) of (t', s') \<Rightarrow>
      sendMap t' = sendMap t \<and> sendSuccessMap t' = (sendSuccessMap t)(sa_MessageID ack \<mapsto> sent) \<and>
      sendSuccess t' = sendSuccess t + 1 \<and>
      s_sendMaxLatency s' = max_latency (s_sendMaxLatency s) (now - sent)) \<and>
    (case onSendack_test E now ack (t, s) of (t', s') \<Rightarrow>
      sendMap (send_record sent (sa_ClientSeq ack) t') = (sendMap t)(sa_ClientSeq ack \<mapsto> sent) \<and>
      sendSuccessMap t' = sendSuccessMap t \<and> sendSuccess t' = sendSuccess t + 1 \<and> s' = s)"
  using assms by (auto simp: onSendack_test_def send_record_def Let_def)

theorem early_receipt_witness:
  "case onSendack_test demo_env 8 (demo_ack 3) (demo_tc, zero_stats) of (t', s') \<Rightarrow>
     sendMap (send_record 5 3 t') = [3 \<mapsto> 5] \<and> s' = zero_stats"
  using early_receipt [where t = demo_tc and ack = "demo_ack 3" and E = demo_env and now = 8
    and sent = 5 and s = zero_stats]
  by (simp add: demo_tc_def demo_ack_def demo_env_def split: prod.splits)

text \<open>Rounds of the statistics task, between which the clients move on.\<close>

fun count_rounds :: "(testClient list \<Rightarrow> testClient list) list \<Rightarrow> testClient list \<Rightarrow> batch list" where
  "count_rounds [] clients = []"
| "count_rounds (move # moves) clients =
     (let cs = move clients
      in \<lparr>b_send = total (\<lambda>c. b_send (client_batch c)) cs,
          b_sendBytes = total (\<lambda>c. b_sendBytes (client_batch c)) cs,
          b_recv = total (\<lambda>c. b_recv (client_batch c)) cs,
          b_recvBytes = total (\<lambda>c. b_recvBytes (client_batch c)) cs\<rparr>
         # count_rounds moves (map mark_counted cs))"

fun rounds_end :: "(testClient list \<Rightarrow> testClient list) list \<Rightarrow> testClient list \<Rightarrow> testClient list" where
  "rounds_end [] clients = clients"
| "rounds_end (move # moves) clients = rounds_end moves (map mark_counted (move clients))"

text \<open>Client activity: it leaves the marks of the statistics task alone and loses no client.\<close>

definition activity :: "(testClient list \<Rightarrow> testClient list) \<Rightarrow> bool" where
  "activity move \<longleftrightarrow> (\<forall>cs. map preSendCount (move cs) = map preSendCount cs \<and>
     map preRecv (move cs) = map preRecv cs)"

lemma total_diff: "total (\<lambda>c. f c - g c) cs = total f cs - total g cs"
  by (induction cs) (simp_all add: total_def)

lemma total_map: "total f (map g cs) = total (f \<circ> g) cs"
  by (simp add: total_def)



end
