(* ===== verification/Server_Batches.thy ===== *)
theory Server_Batches
  imports Test_Client
begin

text \<open>
  Users, channels and batches: the identifiers that \<^verbatim>\<open>server/server.go\<close> generates, the
  configuration of a test from \<^verbatim>\<open>server/api_stress.go\<close>, how \<^verbatim>\<open>server/task_online.go\<close> and
  \<^verbatim>\<open>server/task_channel.go\<close> cut their work into batches, who is subscribed to a channel, and how
  the users are brought online.
\<close>

section \<open>Configuration of a test\<close>

record subscriberCfg =
  sub_Count :: int
  sub_Online :: int

record channelCfg =
  ch_Count :: int
  ch_Type :: int
  ch_Subscriber :: "subscriberCfg option"
  ch_MsgRate :: int

record p2pCfg =
  p2p_Count :: int
  p2p_MsgRate :: int

text \<open>Pointers that a request may leave out are options.\<close>

record taskCfg =
  cfg_Online :: int
  cfg_Channels :: "channelCfg option list"
  cfg_P2p :: "p2pCfg option"
  cfg_UserPrefix :: string
  cfg_ChannelPrefix :: string

definition cfg_check :: "taskCfg \<Rightarrow> go_error option" where
  "cfg_check t = (if cfg_Online t \<le> 0 then Some Err_Online_Not_Positive else None)"

section \<open>Identifiers\<close>

definition genUid :: "string \<Rightarrow> int \<Rightarrow> string" where
  "genUid UserPrefix index = UserPrefix @ sprintf_07d index"

definition genChannelId :: "string \<Rightarrow> int \<Rightarrow> int \<Rightarrow> string" where
  "genChannelId ChannelPrefix taskIndex index =
     ChannelPrefix @ itoa taskIndex @ CHR '':'' # sprintf_07d index"

text \<open>The prefixes that the start handler makes up, for the machine \<open>id\<close> and the number of the test.\<close>

definition user_prefix :: "string \<Rightarrow> int \<Rightarrow> string" where
  "user_prefix mid seq = mid @ CHR '':'' # itoa seq @ '':usr:''"

definition channel_prefix :: "string \<Rightarrow> int \<Rightarrow> string" where
  "channel_prefix mid seq = mid @ CHR '':'' # itoa seq @ '':cha:''"

section \<open>Batches\<close>

text \<open>A slice filled with generated identifiers, \<open>spare\<close> being the growth policy of \<^verbatim>\<open>append\<close>.\<close>

definition gen_slice :: "(nat \<Rightarrow> nat) \<Rightarrow> (int \<Rightarrow> string) \<Rightarrow> int \<Rightarrow> string gslice" where
  "gen_slice spare gen count =
     foldl (\<lambda>s i. go_append spare [] s (gen (int i))) nil_slice [0 ..< nat count]"

text \<open>The loop over the batches; \<open>running i\<close> tells whether the task still runs at round \<open>i\<close>.\<close>

fun batch_loop :: "(nat \<Rightarrow> bool) \<Rightarrow> int \<Rightarrow> int \<Rightarrow> nat list \<Rightarrow> (int \<times> int) list" where
  "batch_loop running count per [] = []"
| "batch_loop running count per (i # is) =
     (let startIndex = int i * per; endIndex = startIndex + per
      in if \<not> running i \<or> count \<le> startIndex then []
         else (startIndex, endIndex) # batch_loop running count per is)"

definition batches :: "(nat \<Rightarrow> bool) \<Rightarrow> int \<Rightarrow> int \<Rightarrow> (int \<times> int) list go" where
  "batches running count per =
     (if per < count then
        (if per = 0 then Inl Divide_By_Zero
         else Inr (batch_loop running count per [0 ..< nat (go_div count per + 1)]))
      else Inr [(0, count)])"

text \<open>What \<^verbatim>\<open>online\<close> and \<^verbatim>\<open>createChannel\<close> take out of the slice.\<close>

definition take_batch :: "string gslice \<Rightarrow> int \<times> int \<Rightarrow> string list go" where
  "take_batch ids b =
     (case b of (startIndex, endIndex) \<Rightarrow>
        if endIndex \<le> startIndex \<or> int (slen ids) \<le> startIndex then Inr []
        else go_slice ids startIndex endIndex)"

fun take_batches :: "string gslice \<Rightarrow> (int \<times> int) list \<Rightarrow> string list go" where
  "take_batches ids [] = Inr []"
| "take_batches ids (b # bs) =
     go_bind (take_batch ids b) (\<lambda>xs. go_bind (take_batches ids bs) (\<lambda>ys. Inr (xs @ ys)))"

definition handled :: "(nat \<Rightarrow> bool) \<Rightarrow> string gslice \<Rightarrow> int \<Rightarrow> int \<Rightarrow> string list go" where
  "handled running ids count per = go_bind (batches running count per) (take_batches ids)"

section \<open>Bringing users online\<close>

type_synonym clients = "string \<rightharpoonup> testClient"

text \<open>A new client for a user, connected: \<open>None\<close> when the connection fails.\<close>

definition connect_new ::
    "env \<Rightarrow> byte \<Rightarrow> (string \<Rightarrow> handshake) \<Rightarrow> string \<Rightarrow> string \<Rightarrow> testClient option go" where
  "connect_new E ver hs tcpAddr uid =
     go_bind (newTestClient ver tcpAddr uid) (\<lambda>t.
       go_bind (tc_connect E (hs uid) t) (\<lambda>(t1, e). Inr (if e = None then Some t1 else None)))"

fun connect_all ::
    "env \<Rightarrow> byte \<Rightarrow> (string \<Rightarrow> handshake) \<Rightarrow> (string \<Rightarrow> string) \<Rightarrow> string list \<Rightarrow> clients \<Rightarrow> clients go"
  where
  "connect_all E ver hs ad [] clients = Inr clients"
| "connect_all E ver hs ad (uid # uids) clients =
     go_bind (connect_new E ver hs (ad uid) uid) (\<lambda>r.
       connect_all E ver hs ad uids (case r of None \<Rightarrow> clients | Some t \<Rightarrow> clients(uid \<mapsto> t)))"

definition lookup_addr :: "(string \<rightharpoonup> string) \<Rightarrow> string \<Rightarrow> string" where
  "lookup_addr m uid = (case m uid of None \<Rightarrow> [] | Some a \<Rightarrow> a)"

text \<open>\<^verbatim>\<open>online\<close> for one batch; \<open>route\<close> is the answer of the server under test, \<open>running uid\<close> tells
  whether the task still runs when the turn of \<open>uid\<close> comes.\<close>

definition online ::
    "env \<Rightarrow> byte \<Rightarrow> (string \<Rightarrow> handshake) \<Rightarrow> (string \<Rightarrow> bool) \<Rightarrow> (string list \<Rightarrow> go_error + (string \<rightharpoonup> string))
       \<Rightarrow> string list \<Rightarrow> clients \<Rightarrow> clients go" where
  "online E ver hs running route onlineUids clients =
     (case route onlineUids of
        Inl err \<Rightarrow> Inr clients
      | Inr userTcpAddrMap \<Rightarrow>
          connect_all E ver hs (lookup_addr userTcpAddrMap) (filter running onlineUids) clients)"

text \<open>\<^verbatim>\<open>reconnectIfNeed\<close>: clients are made for the users that have none, and the others that are not
  connected are connected again.\<close>

fun connect_again :: "env \<Rightarrow> (string \<Rightarrow> handshake) \<Rightarrow> string list \<Rightarrow> clients \<Rightarrow> clients go" where
  "connect_again E hs [] clients = Inr clients"
| "connect_again E hs (uid # uids) clients =
     (case clients uid of
        None \<Rightarrow> connect_again E hs uids clients
      | Some cli \<Rightarrow>
          if tc_isConnected cli then connect_again E hs uids clients
          else go_bind (tc_connect E (hs uid) cli) (\<lambda>(cli1, e).
                 connect_again E hs uids (clients(uid \<mapsto> cli1))))"

definition reconnectIfNeed ::
    "env \<Rightarrow> byte \<Rightarrow> (string \<Rightarrow> handshake) \<Rightarrow> (string list \<Rightarrow> go_error + (string \<rightharpoonup> string))
       \<Rightarrow> bool \<Rightarrow> string list \<Rightarrow> clients \<Rightarrow> clients go" where
  "reconnectIfNeed E ver hs route onlineFinished uids clients =
     (if \<not> onlineFinished then Inr clients
      else
        let needCreateUids = filter (\<lambda>uid. clients uid = None) uids
        in if needCreateUids = [] then connect_again E hs uids clients
           else case route needCreateUids of
             Inl err \<Rightarrow> Inr clients
           | Inr tpcAddrMap \<Rightarrow>
               go_bind (connect_all E ver hs
                   (\<lambda>uid. let a = lookup_addr tpcAddrMap uid
                          in if a = [] then ''43.160.247.125:5001'' else a) needCreateUids clients)
                 (connect_again E hs uids))"

section \<open>Subscribers\<close>

text \<open>\<^verbatim>\<open>createSubscribers\<close>: all subscribers, and the online ones.\<close>

definition createSubscribers ::
    "string \<Rightarrow> int \<Rightarrow> string gslice \<Rightarrow> subscriberCfg option \<Rightarrow> (string list \<times> string list) go" where
  "createSubscribers UserPrefix Online uids sub =
     (case sub of
        None \<Rightarrow> Inl Nil_Dereference
      | Some sc \<Rightarrow>
          if sub_Count sc < 0 then Inl Makeslice_Range
          else go_bind (go_slice uids 0 (if sub_Online sc \<le> Online then sub_Online sc else Online))
            (\<lambda>subscribers. Inr
              (subscribers @ map (\<lambda>i. genUid UserPrefix (Online + int i + 10000))
                 [length subscribers ..< nat (sub_Count sc)], subscribers)))"

section \<open>Properties\<close>

lemma genUid_inj: "0 \<le> i \<Longrightarrow> 0 \<le> j \<Longrightarrow> genUid p i = genUid p j \<longleftrightarrow> i = j"
  by (simp add: genUid_def sprintf_07d_inj)

lemma itoa_inj: "itoa i = itoa j \<longleftrightarrow> i = j"
proof -
  have mixed: "itoa k \<noteq> itoa l" if "k < 0" "\<not> l < 0" for k l
    using that hd_dec_digit [of "nat l" "CHR ''-''" "dec (nat (- k))"] by (auto simp: itoa_def)
  show ?thesis
    using mixed [of i j] mixed [of j i] by (cases "i < 0"; cases "j < 0") (auto simp: itoa_def dec_inj)
qed



subsection \<open>Batches\<close>

lemma batch_loop_running:
  assumes "\<And>i. running i"
  shows "batch_loop running count per is =
    map (\<lambda>i. (int i * per, int i * per + per)) (takeWhile (\<lambda>i. int i * per < count) is)"
  by (induction "is") (simp_all add: assms Let_def)

lemma takeWhile_upt: "takeWhile (\<lambda>i. i < k) [0 ..< m] = [0 ..< min k m]"
proof (cases "k \<le> m")
  case True
  then have "[0 ..< m] = [0 ..< k] @ [k ..< m]" by (metis le0 le_iff_add upt_add_eq_append add_0)
  moreover have "takeWhile (\<lambda>i. i < k) [k ..< m] = []" by (cases "k < m") (simp_all add: upt_conv_Cons)
  moreover have "takeWhile (\<lambda>i. i < k) ([0 ..< k] @ [k ..< m]) = [0 ..< k] @ takeWhile (\<lambda>i. i < k) [k ..< m]"
    by (rule takeWhile_append2) simp
  ultimately show ?thesis using True by simp
next
  case False
  then have "takeWhile (\<lambda>i. i < k) [0 ..< m] = [0 ..< m]" by (simp add: takeWhile_eq_all_conv)
  with False show ?thesis by simp
qed

lemma below_count_iff: "0 < per \<Longrightarrow> i * per < (n :: nat) \<longleftrightarrow> i < (n + per - 1) div per"
proof -
  assume p: "0 < per"
  have "i < (n + per - 1) div per \<longleftrightarrow> Suc i \<le> (n + per - 1) div per" by (simp add: Suc_le_eq)
  also have "\<dots> \<longleftrightarrow> Suc i * per \<le> n + per - 1" using p by (simp add: less_eq_div_iff_mult_less_eq)
  also have "\<dots> \<longleftrightarrow> i * per < n" using p by auto
  finally show ?thesis ..
qed

text \<open>The number of batches: the rounded-up quotient.\<close>

lemma batches_running:
  fixes n per :: nat
  assumes "\<And>i. running i" and "0 < per" and "per < n"
  shows "batches running (int n) (int per) =
    Inr (map (\<lambda>i. (int (i * per), int (i * per + per))) [0 ..< (n + per - 1) div per])"
proof -
  let ?k = "(n + per - 1) div per"
  have q: "nat (go_div (int n) (int per) + 1) = n div per + 1"
    by (simp add: go_div_nonneg zdiv_int [symmetric] nat_add_distrib)
  have k: "?k \<le> n div per + 1"
  proof -
    have "?k \<le> (n + per) div per" by (intro div_le_mono) simp
    moreover have "(n + per) div per = n div per + 1"
      using assms(2) by (simp add: div_add_self2)
    ultimately show ?thesis by linarith
  qed
  have "takeWhile (\<lambda>i. int i * int per < int n) [0 ..< n div per + 1] =
      takeWhile (\<lambda>i. i < ?k) [0 ..< n div per + 1]"
    by (intro takeWhile_cong refl)
      (simp only: below_count_iff [OF assms(2), symmetric] of_nat_mult [symmetric] of_nat_less_iff)
  also have "\<dots> = [0 ..< ?k]" unfolding takeWhile_upt min_absorb1 [OF k] ..
  finally show ?thesis
    using assms(2,3) unfolding batches_def batch_loop_running [OF assms(1)] q by (simp add: comp_def)
qed

lemma take_batches_append:
  "take_batches ids (xs @ ys) =
     go_bind (take_batches ids xs) (\<lambda>a. go_bind (take_batches ids ys) (\<lambda>b. Inr (a @ b)))"
proof (induction xs)
  case Nil
  show ?case by (cases "take_batches ids ys") simp_all
next
  case (Cons x xs)
  then show ?case by (simp add: go_bind_assoc)
qed

lemma take_batches_slices:
  fixes n per k :: nat
  assumes "slice_ok ids" and "slen ids = n" and "0 < per"
    and "\<And>i. i < k \<Longrightarrow> i * per < n" and "k * per \<le> length (backing ids)"
  shows "take_batches ids (map (\<lambda>i. (int (i * per), int (i * per + per))) [0 ..< k]) =
    Inr (take (k * per) (backing ids))"
  using assms(4,5)
proof (induction k)
  case (Suc k)
  have "take_batches ids (map (\<lambda>i. (int (i * per), int (i * per + per))) [0 ..< k]) =
      Inr (take (k * per) (backing ids))"
    by (rule Suc.IH) (use Suc.prems in auto)
  moreover have "take_batch ids (int (k * per), int (k * per + per)) =
      Inr (take per (drop (k * per) (backing ids)))"
  proof -
    have "k * per < n" using Suc.prems(1) [of k] by simp
    then show ?thesis
      using assms(2,3) Suc.prems(2) by (simp add: take_batch_def go_slice_def nat_add_distrib algebra_simps del: of_nat_mult of_nat_add)
  qed
  ultimately show ?case
    by (simp add: take_batches_append take_add add.commute [of per])
qed simp

text \<open>A generated slice: its elements, and zero values up to its capacity.\<close>

lemma gen_slice_backing:
  "\<exists>extra. backing (gen_slice spare gen count) = map (\<lambda>i. gen (int i)) [0 ..< nat count] @ replicate extra []"
  and slen_gen_slice: "slen (gen_slice spare gen count) = nat count"
proof -
  have "slen (foldl f nil_slice [0 ..< m]) = m \<and>
      (\<exists>extra. backing (foldl f nil_slice [0 ..< m]) = map (\<lambda>i. gen (int i)) [0 ..< m] @ replicate extra [])"
    if f: "f = (\<lambda>s i. go_append spare [] s (gen (int i)))" for f m
  proof (induction m)
    case (Suc m)
    then obtain extra where len: "slen (foldl f nil_slice [0 ..< m]) = m"
      and b: "backing (foldl f nil_slice [0 ..< m]) = map (\<lambda>i. gen (int i)) [0 ..< m] @ replicate extra []"
      by blast
    show ?case
    proof (cases extra)
      case 0
      then show ?thesis
        using len b by (auto simp: f go_append_def elems_def)
    next
      case (Suc e)
      then show ?thesis
        using len b by (auto simp: f go_append_def list_update_append)
    qed
  qed (simp add: nil_slice_def)
  then show "\<exists>extra. backing (gen_slice spare gen count) =
      map (\<lambda>i. gen (int i)) [0 ..< nat count] @ replicate extra []"
    and "slen (gen_slice spare gen count) = nat count"
    by (simp_all add: gen_slice_def)
qed

lemma gen_slice_ok:
  "slice_ok (gen_slice spare gen count) \<and>
   elems (gen_slice spare gen count) = map (\<lambda>i. gen (int i)) [0 ..< nat count]"
proof -
  obtain extra where "backing (gen_slice spare gen count) =
      map (\<lambda>i. gen (int i)) [0 ..< nat count] @ replicate extra []"
    using gen_slice_backing by blast
  then show ?thesis by (simp add: slice_ok_def elems_def slen_gen_slice)
qed

text \<open>The rounded-up quotient times the divisor.\<close>

lemma reach_dvd:
  fixes n b :: nat
  assumes "0 < b"
  shows "b dvd n \<longleftrightarrow> (n + b - 1) div b * b = n"
proof
  assume "b dvd n"
  then obtain q where q: "n = q * b" by (metis dvd_def mult.commute)
  have "q * b + b - 1 = (b - 1) + q * b" using assms by simp
  then have "(n + b - 1) div b = q" unfolding q using assms by (simp only: div_mult_self1) simp
  with q show "(n + b - 1) div b * b = n" by simp
next
  assume "(n + b - 1) div b * b = n"
  then show "b dvd n" by (metis dvd_triv_right)
qed

lemma reach_ge: "0 < b \<Longrightarrow> (n :: nat) \<le> (n + b - 1) div b * b"
  using below_count_iff [of b "(n + b - 1) div b" n] by (simp add: not_less)

text \<open>A capacity that reaches the end of the last batch, and one that does not.\<close>

lemma take_batches_fit:
  fixes n b :: nat
  assumes "slice_ok ids" and "slen ids = n" and "0 < b" and "(n + b - 1) div b * b \<le> length (backing ids)"
  shows "take_batches ids (map (\<lambda>i. (int (i * b), int (i * b + b))) [0 ..< (n + b - 1) div b]) =
    Inr (take ((n + b - 1) div b * b) (backing ids))"
  using assms(4) below_count_iff [OF assms(3)]
  by (intro take_batches_slices [OF assms(1,2,3)]) simp_all

lemma take_batches_overrun:
  fixes n b :: nat
  assumes "slice_ok ids" and "slen ids = n" and "0 < b" and "0 < n"
    and "length (backing ids) < (n + b - 1) div b * b"
  shows "take_batches ids (map (\<lambda>i. (int (i * b), int (i * b + b))) [0 ..< (n + b - 1) div b]) =
    Inl Slice_Bounds"
proof -
  have "0 < (n + b - 1) div b" using assms(3,4) by (simp add: div_greater_zero_iff)
  then obtain j where j: "(n + b - 1) div b = Suc j" by (cases "(n + b - 1) div b") auto
  have below: "i * b < n" if "i < Suc j" for i
    using that below_count_iff [OF assms(3), of i n] j by simp
  have "j * b < n" using below [of j] by simp
  then have "take_batches ids (map (\<lambda>i. (int (i * b), int (i * b + b))) [0 ..< j]) =
      Inr (take (j * b) (backing ids))"
    using assms(1,2) by (intro take_batches_slices [OF assms(1,2,3)] below) (simp_all add: slice_ok_def)
  moreover have "take_batch ids (int (j * b), int (j * b + b)) = Inl Slice_Bounds"
  proof -
    have "int (j * b) < int n" using \<open>j * b < n\<close> by (simp only: of_nat_less_iff)
    moreover have "int (length (backing ids)) < int (j * b + b)"
      using assms(5) unfolding j by (simp only: of_nat_less_iff mult_Suc add.commute)
    ultimately show ?thesis
      using assms(2,3) by (simp add: take_batch_def go_slice_def not_le del: of_nat_mult of_nat_add)
  qed
  ultimately show ?thesis
    unfolding j by (simp add: take_batches_append del: of_nat_mult of_nat_add)
qed

text \<open>
  C18. What the batches hand on. With \<open>count\<close> identifiers and batches of \<open>per\<close>, the task running
  throughout, every identifier is handled exactly once, in order, when all fit into one batch or the
  batches come out even. Otherwise the end of the last batch lies behind the identifiers: when the
  capacity of the slice does not reach it, the task panics; when it does, the empty identifiers that
  fill the slice up to there are handled like users (or channels) too.
\<close>

theorem batches_handled:
  assumes "\<And>i. running i" and "0 < count" and "0 < per"
  shows "(let ids = gen_slice spare gen count; n = nat count;
              all = map (\<lambda>i. gen (int i)) [0 ..< n];
              reach = (n + nat per - 1) div nat per * nat per
          in handled running ids count per =
             (if count \<le> per \<or> per dvd count then Inr all
              else if length (backing ids) < reach then Inl Slice_Bounds
              else Inr (all @ replicate (reach - n) [])))"
proof -
  define n b where "n = nat count" and "b = nat per"
  have nb: "count = int n" "per = int b" "0 < n" "0 < b" using assms by (simp_all add: n_def b_def)
  let ?ids = "gen_slice spare gen count" and ?all = "map (\<lambda>i. gen (int i)) [0 ..< n]"
  let ?k = "(n + b - 1) div b"
  obtain extra where ex: "backing ?ids = ?all @ replicate extra []"
    using gen_slice_backing [of spare gen count] by (auto simp: n_def)
  have len: "slen ?ids = n" by (simp add: slen_gen_slice n_def)
  have ok: "slice_ok ?ids" using gen_slice_ok by blast
  have dvd: "per dvd count \<longleftrightarrow> ?k * b = n" using reach_dvd [OF nb(4), of n] nb(1,2) by simp
  show ?thesis
  proof (cases "n \<le> b")
    case True
    have "take_batch ?ids (0, count) = Inr ?all"
      using nb ex len by (simp add: take_batch_def go_slice_def)
    with True nb show ?thesis by (simp add: handled_def batches_def)
  next
    case False
    then have bat: "batches running count per =
        Inr (map (\<lambda>i. (int (i * b), int (i * b + b))) [0 ..< ?k])"
      unfolding nb(1,2) by (intro batches_running assms(1) nb) simp
    show ?thesis
    proof (cases "length (backing ?ids) < ?k * b")
      case True
      then have "\<not> per dvd count" using dvd ex by auto
      with take_batches_overrun [OF ok len nb(4,3) True] True False nb bat show ?thesis
        by (simp add: handled_def n_def [symmetric] b_def [symmetric] del: of_nat_mult of_nat_add)
    next
      case fits: False
      have "take (?k * b) (backing ?ids) = ?all @ replicate (?k * b - n) []"
        using fits reach_ge [OF nb(4), of n] ex by simp
      with take_batches_fit [OF ok len nb(4)] fits False nb bat dvd show ?thesis
        by (auto simp: handled_def n_def [symmetric] b_def [symmetric] Let_def)
    qed
  qed
qed

theorem batches_handled_witness:
  "handled (\<lambda>_. True) (gen_slice (\<lambda>_. 0) (genUid ''u'') 3) 3 2 = Inl Slice_Bounds \<and>
   handled (\<lambda>_. True) (gen_slice (\<lambda>_. 0) (genUid ''u'') 4) 4 2 =
     Inr [''u0000000'', ''u0000001'', ''u0000002'', ''u0000003'']"
proof -
  have len: "length (backing (gen_slice (\<lambda>_. 0) (genUid ''u'') 3)) = 3" by code_simp
  have uids: "map (\<lambda>i. genUid ''u'' (int i)) [0 ..< 4] =
      [''u0000000'', ''u0000001'', ''u0000002'', ''u0000003'']" by code_simp
  show ?thesis
    using batches_handled [of "\<lambda>_. True" 3 2 "\<lambda>_. 0" "genUid ''u''"]
      batches_handled [of "\<lambda>_. True" 4 2 "\<lambda>_. 0" "genUid ''u''"] len uids
    by simp
qed

subsection \<open>Subscribers\<close>

lemma gen_slice_prefix:
  assumes "0 \<le> k" and "k \<le> count"
  shows "go_slice (gen_slice spare gen count) 0 k = Inr (map (\<lambda>i. gen (int i)) [0 ..< nat k])"
proof -
  have "go_slice (gen_slice spare gen count) 0 k =
      Inr (take (nat k) (elems (gen_slice spare gen count)))"
    using gen_slice_ok [of spare gen count] assms
    by (subst go_slice_within) (simp_all add: slen_gen_slice)
  also have "take (nat k) (elems (gen_slice spare gen count)) = map (\<lambda>i. gen (int i)) [0 ..< nat k]"
    using gen_slice_ok [of spare gen count] assms by (simp add: take_map)
  finally show ?thesis .
qed

text \<open>
  C33. The subscribers of a channel: the first users of the online task, as many as configured and
  as there are, then offline ones until the configured number of subscribers is reached; all of them
  are different, and no offline subscriber is a user that the online task brings online.
\<close>

theorem subscribers_of_channel:
  assumes "0 \<le> sub_Online sc" and "0 \<le> sub_Count sc" and "0 \<le> Online"
  shows "\<exists>subs onl. createSubscribers p Online (gen_slice spare (genUid p) Online) (Some sc) =
      Inr (subs, onl) \<and>
    onl = map (\<lambda>i. genUid p (int i)) [0 ..< nat (min (sub_Online sc) Online)] \<and>
    take (length onl) subs = onl \<and> length subs = max (length onl) (nat (sub_Count sc)) \<and>
    distinct subs \<and>
    set (drop (length onl) subs) \<inter> set (map (\<lambda>i. genUid p (int i)) [0 ..< nat Online]) = {}"
proof -
  let ?k = "min (sub_Online sc) Online"
  let ?onl = "map (\<lambda>i. genUid p (int i)) [0 ..< nat ?k]"
  let ?off = "map (\<lambda>i. genUid p (Online + int i + 10000)) [nat ?k ..< nat (sub_Count sc)]"
  have "go_slice (gen_slice spare (genUid p) Online) 0
      (if sub_Online sc \<le> Online then sub_Online sc else Online) = Inr ?onl"
    using gen_slice_prefix [of ?k Online spare "genUid p"] assms by (auto simp: min_def)
  then have "createSubscribers p Online (gen_slice spare (genUid p) Online) (Some sc) =
      Inr (?onl @ ?off, ?onl)"
    using assms(2) by (simp add: createSubscribers_def not_less)
  moreover have "distinct (?onl @ ?off)"
    using assms by (auto simp: distinct_map inj_on_def genUid_inj)
  moreover have "set ?off \<inter> set (map (\<lambda>i. genUid p (int i)) [0 ..< nat Online]) = {}"
    using assms by (auto simp: genUid_inj)
  moreover have "length (?onl @ ?off) = max (length ?onl) (nat (sub_Count sc))"
    by (simp add: max_def)
  moreover have "take (length ?onl) (?onl @ ?off) = ?onl" "drop (length ?onl) (?onl @ ?off) = ?off"
    by (simp_all only: append_eq_conv_conj [THEN iffD1, OF refl, THEN conjunct1, symmetric]
        append_eq_conv_conj [THEN iffD1, OF refl, THEN conjunct2, symmetric])
  ultimately show ?thesis
    by (intro exI [of _ "?onl @ ?off"] exI [of _ ?onl] conjI) (simp_all only:)
qed

theorem subscribers_of_channel_witness:
  "\<exists>subs onl. createSubscribers ''u'' 2 (gen_slice (\<lambda>_. 1) (genUid ''u'') 2)
       (Some \<lparr>sub_Count = 4, sub_Online = 3\<rparr>) = Inr (subs, onl) \<and>
     length onl = 2 \<and> length subs = 4 \<and> distinct subs"
  using subscribers_of_channel [of "\<lparr>sub_Count = 4, sub_Online = 3\<rparr>" 2 "''u''" "\<lambda>_. 1"] by auto

end
