(* ===== verification/P2p_Pairs.thy ===== *)
theory P2p_Pairs
  imports Go_Float Server_Batches
begin

text \<open>
  The pairs of users that chat with each other, from \<^verbatim>\<open>server/task_p2p.go\<close>: how many users a number
  of chats needs, computed in floating point, and the random choice of the pairs. The results of
  \<^verbatim>\<open>rand.Intn\<close> come from a list of draws; an operation that runs out of draws is \<open>None\<close>.
\<close>

section \<open>The least number of users\<close>

definition minUsersForPairs :: "int \<Rightarrow> go_error + int" where
  "minUsersForPairs pairs =
     (if pairs < 0 then Inl Err_Negative_Pairs
      else
        let c = fl (wrap64 (- 2 * pairs) * one52);
            discriminant = fl (one52 - 4 * c)
        in if discriminant < 0 then Inl Err_No_Solution
           else let n2 = fl (one52 + fl_sqrt discriminant)
                in Inr ((n2 + (2 * one52 - 1)) div (2 * one52)))"

section \<open>Random pairs\<close>

text \<open>\<^verbatim>\<open>rand.Intn(n)\<close>: some number below \<open>n\<close>.\<close>

definition Intn :: "int \<Rightarrow> nat \<Rightarrow> nat go" where
  "Intn n draw = (if n \<le> 0 then Inl Intn_Argument else Inr (draw mod nat n))"

definition draw_pair :: "int \<Rightarrow> nat \<times> nat \<Rightarrow> (nat \<times> nat) go" where
  "draw_pair n d = go_bind (Intn n (fst d)) (\<lambda>i. go_bind (Intn n (snd d)) (\<lambda>j. Inr (i, j)))"

fun pair_loop ::
    "string list \<Rightarrow> int \<Rightarrow> (nat \<times> nat) list \<Rightarrow> (nat \<times> nat) list \<Rightarrow> (string \<times> string) list
       \<Rightarrow> (string \<times> string) list go option" where
  "pair_loop users numPairs [] used pairs =
     (if int (length pairs) < numPairs then None else Some (Inr pairs))"
| "pair_loop users numPairs (d # ds) used pairs =
     (if int (length pairs) < numPairs then
        (case draw_pair (int (length users)) d of
           Inl p \<Rightarrow> Some (Inl p)
         | Inr (i, j) \<Rightarrow>
             if i \<noteq> j then
               (let pair = (min i j, max i j)
                in if pair \<notin> set used
                   then pair_loop users numPairs ds (pair # used)
                          (pairs @ [(users ! fst pair, users ! snd pair)])
                   else pair_loop users numPairs ds used pairs)
             else pair_loop users numPairs ds used pairs)
      else Some (Inr pairs))"

definition generateRandomPairs ::
    "string list \<Rightarrow> int \<Rightarrow> (nat \<times> nat) list \<Rightarrow> (go_error + (string \<times> string) list) go option" where
  "generateRandomPairs users numPairs draws =
     (let n = int (length users); maxPairs = go_div (n * (n - 1)) 2
      in if maxPairs < numPairs then Some (Inr (Inl Err_Too_Many_Pairs))
         else if numPairs < 0 then Some (Inl Makeslice_Range)
         else map_option (\<lambda>r. go_bind r (\<lambda>pairs. Inr (Inr pairs)))
                (pair_loop users numPairs draws [] []))"

section \<open>The task of private chats\<close>

record p2pTask =
  p2p_running :: bool
  p2p_cfg :: p2pCfg
  p2p_pairs :: "(string \<times> string) list"
  p2p_stopped :: bool
  p2p_sendMsgCount :: int

definition newP2pTask :: "p2pCfg \<Rightarrow> p2pTask" where
  "newP2pTask cfg =
     \<lparr>p2p_running = False, p2p_cfg = cfg, p2p_pairs = [], p2p_stopped = False, p2p_sendMsgCount = 0\<rparr>"

text \<open>\<open>uids\<close> are the users of the online task, \<open>prefix\<close> that of the test's users.\<close>

definition fill_users :: "string \<Rightarrow> string list \<Rightarrow> int \<Rightarrow> string list" where
  "fill_users UserPrefix uids minUserCount =
     (if int (length uids) < minUserCount
      then uids @ map (\<lambda>i. genUid UserPrefix (int i)) [length uids ..< nat minUserCount]
      else uids)"

definition generateData ::
    "string \<Rightarrow> string list \<Rightarrow> (nat \<times> nat) list \<Rightarrow> p2pTask \<Rightarrow> p2pTask go option" where
  "generateData UserPrefix uids draws p =
     (case minUsersForPairs (p2p_Count (p2p_cfg p)) of
        Inl err \<Rightarrow> Some (Inr p)
      | Inr minUserCount \<Rightarrow>
          map_option
            (\<lambda>r. go_bind r (\<lambda>res. Inr (case res of
                Inl err \<Rightarrow> p\<lparr>p2p_pairs := []\<rparr>
              | Inr pairs \<Rightarrow> p\<lparr>p2p_pairs := pairs\<rparr>)))
            (generateRandomPairs (fill_users UserPrefix uids minUserCount)
               (p2p_Count (p2p_cfg p)) draws))"

section \<open>Properties\<close>

subsection \<open>The least number of users\<close>

lemma least_triangle:
  fixes p :: int
  assumes "1 \<le> p"
  shows "\<exists>n. 2 \<le> n \<and> (n - 1) * (n - 2) < 2 * p \<and> 2 * p \<le> n * (n - 1)"
  using assms
proof (induction p rule: int_ge_induct)
  case base
  show ?case by (rule exI [of _ 2]) simp
next
  case (step p)
  then obtain n where n: "2 \<le> n" "(n - 1) * (n - 2) < 2 * p" "2 * p \<le> n * (n - 1)" by blast
  show ?case
  proof (cases "2 * (p + 1) \<le> n * (n - 1)")
    case True
    with n show ?thesis by (intro exI [of _ n]) simp
  next
    case False
    with n show ?thesis by (intro exI [of _ "n + 1"]) (simp add: algebra_simps)
  qed
qed

text \<open>Between two odd squares the rounded root lies strictly above the lower one.\<close>

lemma root_between:
  fixes D u :: int
  assumes "u * u + 8 \<le> D" and "D \<le> (u + 2) * (u + 2)" and "D < 2 ^ 53" and "1 \<le> u"
  shows "(u * 2 ^ 25 + 1) * 2 ^ 27 \<le> fl_sqrt (D * 2 ^ 52) \<and> fl_sqrt (D * 2 ^ 52) \<le> (u + 2) * 2 ^ 52"
    and "u < 2 ^ 27"
proof -
  show u: "u < 2 ^ 27"
  proof (rule ccontr)
    assume "\<not> u < 2 ^ 27"
    then have "2 ^ 27 * 2 ^ 27 \<le> u * u" by (intro mult_mono) simp_all
    with assms(1,3) show False by simp
  qed
  have Y: "D * 2 ^ 52 * one52 < 2 ^ 157" using assms(3) by (simp add: one52_def)
  have nn: "0 \<le> D" using assms(1) zero_le_square [of u] by linarith
  then have "isqrt (D * 2 ^ 52 * one52) \<le> 2 ^ 79 - 1"
    using Y by (intro isqrt_le) (simp_all add: one52_def)
  then have r: "isqrt (D * 2 ^ 52 * one52) < 2 ^ (53 + 27)" "isqrt (D * 2 ^ 52 * one52) < 2 ^ (53 + 52)"
    by simp_all
  have "(u * 2 ^ 25 + 1) * 2 ^ 27 * ((u * 2 ^ 25 + 1) * 2 ^ 27) \<le> (u * u + 8) * 2 ^ 52 * one52"
    using u assms(4) by (simp add: one52_def algebra_simps)
  also have "\<dots> \<le> D * 2 ^ 52 * one52" using assms(1) by (simp add: one52_def)
  finally have "(u * 2 ^ 25 + 1) * 2 ^ 27 \<le> fl_sqrt (D * 2 ^ 52)"
    using nn r assms(4) by (intro fl_sqrt_ge) simp_all
  moreover have "fl_sqrt (D * 2 ^ 52) \<le> (u + 2) * 2 ^ 52"
    using nn r assms(2,4) by (intro fl_sqrt_le) (simp_all add: one52_def algebra_simps)
  ultimately show "(u * 2 ^ 25 + 1) * 2 ^ 27 \<le> fl_sqrt (D * 2 ^ 52) \<and>
      fl_sqrt (D * 2 ^ 52) \<le> (u + 2) * 2 ^ 52" ..
qed

lemma ceil_div: "(n - 1) * d < X \<Longrightarrow> X \<le> n * d \<Longrightarrow> (X + (d - 1)) div d = (n :: int)"
  by (rule int_div_pos_eq [where r = "X + d - 1 - n * d"]) (simp_all add: algebra_simps)

lemma discriminant_exact:
  assumes "0 \<le> p" and "p < 2 ^ 50"
  shows "fl (one52 - 4 * fl (wrap64 (- 2 * p) * one52)) = (1 + 8 * p) * 2 ^ 52"
proof -
  have w: "wrap64 (- 2 * p) = - (2 * p)" using assms by (subst wrap64_id) simp_all
  have "fl (2 * p * 2 ^ 52) = 2 * p * 2 ^ 52" using assms by (intro fl_exact) simp_all
  then have "fl (wrap64 (- 2 * p) * one52) = - (2 * p * 2 ^ 52)"
    unfolding w using fl_neg [of "2 * p * 2 ^ 52"] by (simp add: one52_def)
  then have "one52 - 4 * fl (wrap64 (- 2 * p) * one52) = (1 + 8 * p) * 2 ^ 52"
    by (simp add: one52_def algebra_simps)
  then show ?thesis using assms fl_exact [of "1 + 8 * p" 52] by simp
qed

lemma minUsers_between:
  assumes "2 \<le> n" and "(n - 1) * (n - 2) < 2 * p" and "2 * p \<le> n * (n - 1)" and "p < 2 ^ 50"
  shows "minUsersForPairs p = Inr n"
proof -
  let ?D = "1 + 8 * p" and ?u = "2 * n - 3"
  have p: "0 \<le> p" using assms(1,2) mult_nonneg_nonneg [of "n - 1" "n - 2"] by linarith
  have "even ((n - 1) * (n - 2))" by simp
  then obtain h where "(n - 1) * (n - 2) = 2 * h" by (elim evenE)
  then have "(n - 1) * (n - 2) + 2 \<le> 2 * p" using assms(2) by simp
  moreover have "?u * ?u = 4 * ((n - 1) * (n - 2)) + 1" "(?u + 2) * (?u + 2) = 4 * (n * (n - 1)) + 1"
    by (simp_all add: algebra_simps)
  ultimately have u: "?u * ?u + 8 \<le> ?D" "?D \<le> (?u + 2) * (?u + 2)" using assms(3) by linarith+
  have D: "?D < 2 ^ 53" using assms(4) by simp
  define S where "S = fl_sqrt (?D * 2 ^ 52)"
  have S: "(?u * 2 ^ 25 + 1) * 2 ^ 27 \<le> S" "S \<le> (?u + 2) * 2 ^ 52" "?u < 2 ^ 27"
    using root_between [OF u D] assms(1) unfolding S_def by simp_all
  have nn: "0 \<le> one52 + S" using S(1) assms(1) by (simp add: one52_def algebra_simps)
  have hi: "one52 + S \<le> 2 * n * 2 ^ 52" using S(2) by (simp add: one52_def algebra_simps)
  then have X: "one52 + S < 2 ^ (53 + 27)" "one52 + S < 2 ^ (53 + 52)" using S(3) by simp_all
  have "((?u + 1) * 2 ^ 25 + 1) * 2 ^ 27 \<le> fl (one52 + S)"
    using S(1) by (intro fl_ge [OF nn X(1)]) (simp add: one52_def algebra_simps)
  moreover have "fl (one52 + S) \<le> 2 * n * 2 ^ 52" by (rule fl_le [OF nn X(2) hi])
  ultimately have "(n - 1) * (2 * one52) < fl (one52 + S)" "fl (one52 + S) \<le> n * (2 * one52)"
    by (simp_all add: one52_def algebra_simps)
  then have "(fl (one52 + S) + (2 * one52 - 1)) div (2 * one52) = n"
    by (intro ceil_div) (simp_all add: one52_def)
  then show ?thesis
    using p assms(4) discriminant_exact [OF p assms(4)]
    by (simp add: minUsersForPairs_def Let_def S_def)
qed

lemma minUsers_enough:
  assumes "0 \<le> p" and "p < 2 ^ 50" and "minUsersForPairs p = Inr n"
  shows "1 \<le> n \<and> p \<le> n * (n - 1) div 2"
proof (cases "p = 0")
  case True
  moreover have "minUsersForPairs 0 = Inr 1" by code_simp
  ultimately show ?thesis using assms(3) by simp
next
  case False
  then obtain k where "2 \<le> k" "(k - 1) * (k - 2) < 2 * p" "2 * p \<le> k * (k - 1)"
    using least_triangle [of p] assms(1) by auto
  with minUsers_between [of k p] assms(2,3) show ?thesis by auto
qed

text \<open>
  C19. The number of users is the least one: for up to \<open>2 ^ 50\<close> pairs the floating-point solution of
  the quadratic equation, rounded up, is the least positive number of users that have as many pairs,
  in spite of its roundings; a negative number of pairs is refused.
\<close>

theorem minUsers_least:
  assumes "p < 2 ^ 50"
  shows "if p < 0 then minUsersForPairs p = Inl Err_Negative_Pairs
    else \<exists>n. minUsersForPairs p = Inr n \<and> 1 \<le> n \<and> p \<le> n * (n - 1) div 2 \<and>
           (\<forall>m. 1 \<le> m \<and> m < n \<longrightarrow> m * (m - 1) div 2 < p)"
proof (cases "1 \<le> p")
  case True
  then obtain n where n: "2 \<le> n" "(n - 1) * (n - 2) < 2 * p" "2 * p \<le> n * (n - 1)"
    using least_triangle by blast
  have "m * (m - 1) div 2 < p" if "1 \<le> m" "m < n" for m
  proof -
    have "m * (m - 1) \<le> (n - 1) * (n - 2)" using that by (intro mult_mono) simp_all
    then show ?thesis using n(2) by (simp add: div_less_iff_less_mult mult.commute)
  qed
  with n minUsers_between [OF n assms] True show ?thesis by auto
next
  case False
  have "minUsersForPairs 0 = Inr 1" by code_simp
  with False show ?thesis
    by (cases "p = 0") (auto simp: minUsersForPairs_def)
qed

theorem minUsers_least_witness:
  "minUsersForPairs 6 = Inr 4 \<and> minUsersForPairs 7 = Inr 5 \<and> minUsersForPairs (- 1) = Inl Err_Negative_Pairs"
proof -
  have "minUsersForPairs 6 = Inr 4" "minUsersForPairs 7 = Inr 5" by code_simp+
  then show ?thesis using minUsers_least [of "- 1"] by simp
qed

subsection \<open>Random pairs\<close>

text \<open>The pairs of different indexes that a list of draws offers, the smaller index first.\<close>

definition offer :: "nat \<Rightarrow> nat \<times> nat \<Rightarrow> nat \<times> nat" where
  "offer n d = (min (fst d mod n) (snd d mod n), max (fst d mod n) (snd d mod n))"

definition offers :: "nat \<Rightarrow> (nat \<times> nat) list \<Rightarrow> (nat \<times> nat) set" where
  "offers n draws = set (filter (\<lambda>(i, j). i \<noteq> j) (map (offer n) draws))"

definition index_pairs :: "nat \<Rightarrow> (nat \<times> nat) set" where
  "index_pairs n = (SIGMA j : {..< n}. {..< j})\<inverse>"

definition users_at :: "string list \<Rightarrow> (nat \<times> nat) list \<Rightarrow> (string \<times> string) list" where
  "users_at users ps = map (\<lambda>(i, j). (users ! i, users ! j)) ps"

lemma in_index_pairs [simp]: "(i, j) \<in> index_pairs n \<longleftrightarrow> i < j \<and> j < n"
  by (auto simp: index_pairs_def)

lemma finite_index_pairs [simp]: "finite (index_pairs n)"
  by (simp add: index_pairs_def)

lemma card_index_pairs: "card (index_pairs n) = n * (n - 1) div 2"
proof -
  have c: "card (index_pairs n) = (\<Sum>j<n. j)" by (simp add: index_pairs_def)
  have "2 * (\<Sum>j<n. j) = n * (n - 1)"
  proof (induction n)
    case (Suc n)
    then show ?case by (cases n) simp_all
  qed simp
  then show ?thesis unfolding c by simp
qed

lemma draw_pair_eq:
  "0 < n \<Longrightarrow> draw_pair (int n) d = Inr (fst d mod n, snd d mod n)"
  by (simp add: draw_pair_def Intn_def)

lemma offers_simps:
  "offers n [] = {}"
  "offers n (d # ds) = (if fst d mod n = snd d mod n then offers n ds else insert (offer n d) (offers n ds))"
  by (auto simp: offers_def offer_def min_def max_def)

lemma offer_index_pair:
  "0 < n \<Longrightarrow> fst d mod n \<noteq> snd d mod n \<Longrightarrow> offer n d \<in> index_pairs n"
  by (simp add: offer_def min_def max_def)

lemma offers_index_pairs: "0 < n \<Longrightarrow> offers n draws \<subseteq> index_pairs n"
  by (induction draws) (auto simp: offers_simps dest: offer_index_pair)

lemma finite_offers [simp]: "finite (offers n draws)"
  by (simp add: offers_def)

lemma pair_loop_step:
  assumes "0 < length users" and "int (length pairs) < k"
  shows "pair_loop users k (d # ds) used pairs =
    (if fst d mod length users \<noteq> snd d mod length users \<and> offer (length users) d \<notin> set used
     then pair_loop users k ds (offer (length users) d # used) (pairs @ users_at users [offer (length users) d])
     else pair_loop users k ds used pairs)"
  using assms by (simp add: draw_pair_eq offer_def users_at_def Let_def)

lemma pair_loop_outcome:
  assumes "0 < length users" and "pairs = users_at users (rev used)" and "distinct used"
    and "int (length used) \<le> k" and "set used \<subseteq> index_pairs (length users)"
  shows "if int (card (set used \<union> offers (length users) draws)) < k
    then pair_loop users k draws used pairs = None
    else \<exists>ps. pair_loop users k draws used pairs = Some (Inr (users_at users ps)) \<and>
           distinct ps \<and> int (length ps) = k \<and> set ps \<subseteq> index_pairs (length users)"
  using assms
proof (induction draws arbitrary: used pairs)
  case Nil
  then show ?case
    by (auto simp: offers_simps distinct_card users_at_def intro!: exI [of _ "rev used"])
next
  case (Cons d ds)
  let ?n = "length users"
  have len: "length pairs = length used" using Cons.prems(2) by (simp add: users_at_def)
  show ?case
  proof (cases "int (length used) < k")
    case False
    have "card (set used) \<le> card (set used \<union> offers ?n (d # ds))" by (rule card_mono) simp_all
    with False Cons.prems have "\<not> int (card (set used \<union> offers ?n (d # ds))) < k"
      by (simp add: distinct_card)
    moreover have "pair_loop users k (d # ds) used pairs = Some (Inr (users_at users (rev used)))"
      using False len Cons.prems(2) by simp
    ultimately show ?thesis
      using False Cons.prems by (auto intro!: exI [of _ "rev used"])
  next
    case True
    show ?thesis
    proof (cases "fst d mod ?n \<noteq> snd d mod ?n \<and> offer ?n d \<notin> set used")
      case new: True
      have "pairs @ users_at users [offer ?n d] = users_at users (rev (offer ?n d # used))"
        using Cons.prems(2) by (simp add: users_at_def)
      moreover have "offer ?n d \<in> index_pairs ?n" using offer_index_pair [OF Cons.prems(1)] new by blast
      moreover have "set (offer ?n d # used) \<union> offers ?n ds = set used \<union> offers ?n (d # ds)"
        using new by (auto simp: offers_simps)
      moreover have "pair_loop users k (d # ds) used pairs =
          pair_loop users k ds (offer ?n d # used) (pairs @ users_at users [offer ?n d])"
        using new True len Cons.prems(1) by (subst pair_loop_step) auto
      ultimately show ?thesis
        using Cons.IH [of "pairs @ users_at users [offer ?n d]" "offer ?n d # used"] new True Cons.prems
        by (simp del: pair_loop.simps cong: if_cong)
    next
      case old: False
      then have "set used \<union> offers ?n (d # ds) = set used \<union> offers ?n ds"
        by (auto simp: offers_simps)
      moreover have "pair_loop users k (d # ds) used pairs = pair_loop users k ds used pairs"
        using old True len Cons.prems(1) by (subst pair_loop_step) auto
      ultimately show ?thesis
        using Cons.IH [OF Cons.prems] by (simp del: pair_loop.simps)
    qed
  qed
qed

lemma go_div_of_nat: "go_div (int a) (int b) = int (a div b)"
  by (simp add: go_div_nonneg zdiv_int)

lemma max_pairs: "go_div (int n * (int n - 1)) 2 = int (card (index_pairs n))"
proof -
  have "int n * (int n - 1) = int (n * (n - 1))" by (cases n) (simp_all add: algebra_simps)
  then show ?thesis
    unfolding card_index_pairs using go_div_of_nat [of "n * (n - 1)" 2] by (simp only: of_nat_numeral)
qed

lemma generateRandomPairs_loop:
  assumes "0 \<le> k" and "k \<le> int (card (index_pairs (length users)))"
  shows "generateRandomPairs users k draws =
    map_option (\<lambda>r. go_bind r (\<lambda>pairs. Inr (Inr pairs))) (pair_loop users k draws [] [])"
  using assms by (simp add: generateRandomPairs_def max_pairs)

lemma random_pairs_outcome:
  assumes "0 < length users" and "0 \<le> k" and "k \<le> int (card (index_pairs (length users)))"
  shows "if int (card (offers (length users) draws)) < k
    then generateRandomPairs users k draws = None
    else \<exists>ps. generateRandomPairs users k draws = Some (Inr (Inr (users_at users ps))) \<and>
           distinct ps \<and> int (length ps) = k \<and> set ps \<subseteq> index_pairs (length users)"
proof -
  have "if int (card (offers (length users) draws)) < k
    then pair_loop users k draws [] [] = None
    else \<exists>ps. pair_loop users k draws [] [] = Some (Inr (users_at users ps)) \<and>
           distinct ps \<and> int (length ps) = k \<and> set ps \<subseteq> index_pairs (length users)"
    using pair_loop_outcome [of users "[]" "[]" k draws] assms by (simp add: users_at_def)
  then show ?thesis
    using generateRandomPairs_loop [OF assms(2,3), of draws] by (fastforce split: if_splits)
qed

text \<open>
  C16. Random pairs, whatever the draws: more pairs than the users have is an error; otherwise the
  choice ends exactly when the draws have offered that many different pairs, and then the result has
  the requested length and consists of the users at different pairs \<open>i < j\<close> of positions, none of
  them twice and never a user with itself.
\<close>

theorem generateRandomPairs_outcome:
  assumes "0 \<le> k"
  shows "if int (card (index_pairs (length users))) < k
    then generateRandomPairs users k draws = Some (Inr (Inl Err_Too_Many_Pairs))
    else if int (card (offers (length users) draws)) < k
    then generateRandomPairs users k draws = None
    else \<exists>ps. generateRandomPairs users k draws = Some (Inr (Inr (users_at users ps))) \<and>
           distinct ps \<and> int (length ps) = k \<and> set ps \<subseteq> index_pairs (length users)"
proof (cases "users = [] \<and> k = 0")
  case True
  then have "generateRandomPairs users k draws = Some (Inr (Inr []))"
    by (cases draws) (simp_all add: generateRandomPairs_def go_div_def)
  with True show ?thesis by (auto simp: users_at_def)
next
  case False
  show ?thesis
  proof (cases "int (card (index_pairs (length users))) < k")
    case True
    then show ?thesis by (simp add: generateRandomPairs_def max_pairs)
  next
    case fits: False
    with False assms have "0 < length users" by (cases users) (auto simp: card_index_pairs)
    with fits assms random_pairs_outcome [of users k draws] show ?thesis by simp
  qed
qed

theorem generateRandomPairs_outcome_witness:
  "generateRandomPairs [''a'', ''b'', ''c''] 4 [(0, 1)] = Some (Inr (Inl Err_Too_Many_Pairs)) \<and>
   generateRandomPairs [''a'', ''b'', ''c''] 2 [(0, 1), (1, 0), (2, 2)] = None \<and>
   (\<exists>ps. generateRandomPairs [''a'', ''b'', ''c''] 2 [(0, 1), (1, 0), (2, 1)] =
      Some (Inr (Inr (users_at [''a'', ''b'', ''c''] ps))) \<and> distinct ps)"
proof -
  let ?us = "[''a'', ''b'', ''c'']" and ?ds = "[(0, 1), (1, 0), (2, 2)]" and ?ds' = "[(0, 1), (1, 0), (2, 1)]"
  have n: "card (index_pairs (length ?us)) = 3" by (simp add: card_index_pairs)
  have c: "card (offers (length ?us) ?ds) = 1" "card (offers (length ?us) ?ds') = 2" by code_simp+
  have "generateRandomPairs ?us 4 [(0, 1)] = Some (Inr (Inl Err_Too_Many_Pairs))"
    using generateRandomPairs_outcome [of 4 ?us "[(0, 1)]"] unfolding n by simp
  moreover have "generateRandomPairs ?us 2 ?ds = None"
    using generateRandomPairs_outcome [of 2 ?us ?ds] unfolding n c by simp
  moreover have "\<exists>ps. generateRandomPairs ?us 2 ?ds' = Some (Inr (Inr (users_at ?us ps))) \<and> distinct ps"
    using generateRandomPairs_outcome [of 2 ?us ?ds'] unfolding n c by auto
  ultimately show ?thesis by blast
qed

text \<open>The users of a private-chat task are enough for its pairs.\<close>

lemma length_fill_users:
  "int (length (fill_users pre uids m)) = max (int (length uids)) m"
  by (simp add: fill_users_def max_def)

lemma fill_users_prefix:
  assumes "uids = map (\<lambda>i. genUid pre (int i)) [0 ..< n]"
  shows "fill_users pre uids m = map (\<lambda>i. genUid pre (int i)) [0 ..< max n (nat m)]"
proof (cases "int n < m")
  case True
  then have "[0 ..< max n (nat m)] = [0 ..< n] @ [n ..< nat m]"
    by (metis add_0 le0 le_iff_add max.cobounded1 max_absorb2 nat_less_iff order_less_imp_le upt_add_eq_append zless_nat_conj zless_nat_eq_int_zless)
  with True assms show ?thesis by (simp add: fill_users_def)
next
  case False
  then have "max n (nat m) = n" by linarith
  with False assms show ?thesis by (simp add: fill_users_def)
qed

text \<open>
  C28. The data of a private-chat task: as soon as every pair of positions has been drawn, the pairs
  are there, as many as configured, each of them two different users of the test; the error branches
  of \<^verbatim>\<open>generateData\<close> are never taken.
\<close>

theorem generateData_complete:
  assumes "0 \<le> p2p_Count (p2p_cfg p)" and "p2p_Count (p2p_cfg p) < 2 ^ 50"
    and "uids = map (\<lambda>i. genUid pre (int i)) [0 ..< n]"
    and "minUsersForPairs (p2p_Count (p2p_cfg p)) = Inr m"
    and "index_pairs (max n (nat m)) \<subseteq> offers (max n (nat m)) draws"
  shows "\<exists>pairs. generateData pre uids draws p = Some (Inr (p\<lparr>p2p_pairs := pairs\<rparr>)) \<and>
    int (length pairs) = p2p_Count (p2p_cfg p) \<and> distinct pairs \<and>
    list_all (\<lambda>(a, b). \<exists>i j. i < j \<and> j < max n (nat m) \<and>
      a = genUid pre (int i) \<and> b = genUid pre (int j) \<and> a \<noteq> b) pairs"
proof -
  let ?k = "p2p_Count (p2p_cfg p)" and ?N = "max n (nat m)"
  let ?users = "fill_users pre uids m"
  have users: "?users = map (\<lambda>i. genUid pre (int i)) [0 ..< ?N]" by (rule fill_users_prefix [OF assms(3)])
  then have len: "length ?users = ?N" by simp
  have m: "1 \<le> m" "?k \<le> m * (m - 1) div 2" using minUsers_enough [OF assms(1,2,4)] by blast+
  have N: "0 < ?N" using m(1) by simp
  have enough: "?k \<le> int (card (index_pairs ?N))"
  proof -
    have "m * (m - 1) \<le> int ?N * (int ?N - 1)" using m(1) by (intro mult_mono) simp_all
    then have "m * (m - 1) div 2 \<le> int ?N * (int ?N - 1) div 2" by (rule zdiv_mono1) simp
    also have "\<dots> = int (card (index_pairs ?N))"
      using max_pairs [of ?N] N go_div_nonneg [of "int ?N * (int ?N - 1)" 2] by simp
    finally show ?thesis using m(2) by simp
  qed
  have "card (index_pairs ?N) \<le> card (offers ?N draws)" by (intro card_mono assms(5)) simp
  then obtain ps where ps: "generateRandomPairs ?users ?k draws = Some (Inr (Inr (users_at ?users ps)))"
    "distinct ps" "int (length ps) = ?k" "set ps \<subseteq> index_pairs ?N"
    using random_pairs_outcome [of ?users ?k draws] N enough assms(1) unfolding len
    by (auto split: if_splits)
  have nth: "?users ! i = genUid pre (int i)" if "i < ?N" for i using that unfolding users by simp
  have at: "users_at ?users ps = map (\<lambda>(i, j). (genUid pre (int i), genUid pre (int j))) ps"
    unfolding users_at_def using ps(4) by (intro map_cong refl) (auto simp: nth dest!: subsetD)
  have "inj_on (\<lambda>(i, j). (genUid pre (int i), genUid pre (int j))) (set ps)"
    by (auto simp: inj_on_def genUid_inj)
  then have "distinct (users_at ?users ps)" unfolding at using ps(2) by (simp add: distinct_map)
  moreover have "list_all (\<lambda>(a, b). \<exists>i j. i < j \<and> j < ?N \<and>
      a = genUid pre (int i) \<and> b = genUid pre (int j) \<and> a \<noteq> b) (users_at ?users ps)"
    unfolding at using ps(4) by (fastforce simp: list_all_iff genUid_inj)
  moreover have "int (length (users_at ?users ps)) = ?k" using ps(3) by (simp add: users_at_def)
  ultimately show ?thesis
    using ps(1) assms(4) by (intro exI [of _ "users_at ?users ps"]) (simp add: generateData_def)
qed

theorem generateData_complete_witness:
  "\<exists>pairs. generateData ''u'' [''u0000000''] [(0, 1), (2, 0), (2, 1)]
      (newP2pTask \<lparr>p2p_Count = 2, p2p_MsgRate = 60\<rparr>) =
    Some (Inr ((newP2pTask \<lparr>p2p_Count = 2, p2p_MsgRate = 60\<rparr>)\<lparr>p2p_pairs := pairs\<rparr>)) \<and> length pairs = 2"
proof -
  let ?p = "newP2pTask \<lparr>p2p_Count = 2, p2p_MsgRate = 60\<rparr>"
  have u: "[''u0000000''] = map (\<lambda>i. genUid ''u'' (int i)) [0 ..< 1]" by code_simp
  have m: "minUsersForPairs (p2p_Count (p2p_cfg ?p)) = Inr 3" by code_simp
  have "index_pairs 3 \<subseteq> offers 3 [(0, 1), (2, 0), (2, 1)]"
  proof
    fix x assume "x \<in> index_pairs 3"
    then have "x \<in> {(0, 1), (0, 2), (1, 2)}" by (cases x) auto
    moreover have "offers 3 [(0, 1), (2, 0), (2, 1)] = {(0, 1), (0, 2), (1, 2)}" by code_simp
    ultimately show "x \<in> offers 3 [(0, 1), (2, 0), (2, 1)]" by blast
  qed
  with generateData_complete [OF _ _ u m, of "[(0, 1), (2, 0), (2, 1)]"]
  show ?thesis by (auto simp: newP2pTask_def)
qed

end
