(* ===== verification/Task_Sending.thy ===== *)
theory Task_Sending
  imports P2p_Pairs
begin

text \<open>
  What the tasks of a test do while it runs: creating the channels (\<^verbatim>\<open>server/task_channel.go\<close>), and
  sending the messages of channels and private chats at the configured rate
  (\<^verbatim>\<open>server/task_channel.go\<close>, \<^verbatim>\<open>server/task_p2p.go\<close>), with the random choice of senders of
  \<^verbatim>\<open>server/task_online.go\<close>. Random numbers, identifiers and times of an attempt to send are given with
  the attempt.
\<close>

section \<open>Rates\<close>

text \<open>
  A rate is a number of messages per minute: so many whole messages per second, and a probability
  for one more. The probability is a \<^verbatim>\<open>float64\<close> quotient, given here by its numerator over
  \<open>2 ^ 60\<close>; so is the random number it is compared with.
\<close>

definition minute_fraction :: "int \<Rightarrow> int" where
  "minute_fraction r =
     (let k = spare_bits (r * 2 ^ 60 div 60) in half_even (r * 2 ^ 60) (60 * 2 ^ k) * 2 ^ k)"

definition send_rate :: "int \<Rightarrow> int \<times> int" where
  "send_rate MsgRate =
     (go_div MsgRate 60,
      if 0 < go_mod MsgRate 60 then minute_fraction (go_mod MsgRate 60) else 0)"

definition canSendMessage :: "int \<Rightarrow> int \<Rightarrow> bool" where
  "canSendMessage probability randomValue \<longleftrightarrow> randomValue < probability"

section \<open>One attempt to send\<close>

record attempt =
  at_choice :: nat
  at_coin :: int
  at_uuid :: string
  at_sent :: int
  at_recorded :: int

definition getMockMsg :: bytes where
  "getMockMsg = map of_char ''{\"type\":1,\"content\":\"000000000000000000000000000000\"}''"

definition getUserClient :: "clients \<Rightarrow> string \<Rightarrow> testClient option" where
  "getUserClient clients uid = clients uid"

text \<open>
  Sending as the user \<open>uid\<close>: the client is looked up and must be connected. The second component of
  the result is \<open>None\<close> when nothing was tried, else the error of \<^verbatim>\<open>send\<close>.
\<close>

definition send_as ::
    "env \<Rightarrow> attempt \<Rightarrow> channel \<Rightarrow> string \<Rightarrow> clients \<Rightarrow> (clients \<times> go_error option option) go" where
  "send_as E a ch uid clients =
     (case getUserClient clients uid of
        None \<Rightarrow> Inr (clients, None)
      | Some cli \<Rightarrow>
          if \<not> tc_isConnected cli then Inr (clients, None)
          else go_bind (tc_send E ch getMockMsg (at_uuid a) (at_sent a) (at_recorded a) cli)
                 (\<lambda>(cli1, err). Inr (clients(uid \<mapsto> cli1), Some err)))"

section \<open>Private chats\<close>

definition ChannelTypePerson :: byte where
  "ChannelTypePerson = 1"

text \<open>Who writes to whom in a pair.\<close>

definition p2p_direction :: "nat \<Rightarrow> string \<times> string \<Rightarrow> string \<times> string" where
  "p2p_direction k pair = (if k = 0 then (fst pair, snd pair) else (snd pair, fst pair))"

definition p2p_randSend ::
    "env \<Rightarrow> attempt \<Rightarrow> string \<times> string \<Rightarrow> clients \<times> int \<Rightarrow> (clients \<times> int) go" where
  "p2p_randSend E a pair st =
     (case st of (clients, sendMsgCount) \<Rightarrow>
        go_bind (Intn 2 (at_choice a)) (\<lambda>k.
          case p2p_direction k pair of (fromUid, toUid) \<Rightarrow>
            go_bind (send_as E a \<lparr>ChannelID = toUid, ChannelType = ChannelTypePerson\<rparr> fromUid clients)
              (\<lambda>(clients1, r). Inr (clients1,
                 case r of None \<Rightarrow> sendMsgCount | Some err \<Rightarrow> sendMsgCount + 1))))"

text \<open>\<open>running i\<close> is the flag of the task when round \<open>i\<close> begins, \<open>inp i j\<close> the attempt of round \<open>i\<close> for
  pair \<open>j\<close>; the round for the fraction has its own.\<close>

definition p2p_sendMsg ::
    "env \<Rightarrow> (nat \<Rightarrow> bool) \<Rightarrow> (nat \<Rightarrow> nat \<Rightarrow> attempt) \<Rightarrow> (nat \<Rightarrow> attempt) \<Rightarrow> int \<Rightarrow> int
       \<Rightarrow> (string \<times> string) list \<Rightarrow> clients \<times> int \<Rightarrow> (clients \<times> int) go" where
  "p2p_sendMsg E running inp inp2 msgCount probability pairs st =
     go_bind
       (go_each (\<lambda>i. go_each (\<lambda>(j, pair). p2p_randSend E (inp i j) pair) (enumerate 0 pairs))
          (takeWhile running [0 ..< nat msgCount]) st)
       (\<lambda>st1.
          if 0 < probability
          then go_each (\<lambda>(j, pair) st.
                 if canSendMessage probability (at_coin (inp2 j)) then p2p_randSend E (inp2 j) pair st
                 else Inr st) (enumerate 0 pairs) st1
          else Inr st1)"

definition p2p_willSendMsg ::
    "env \<Rightarrow> (nat \<Rightarrow> bool) \<Rightarrow> (nat \<Rightarrow> nat \<Rightarrow> attempt) \<Rightarrow> (nat \<Rightarrow> attempt) \<Rightarrow> bool \<Rightarrow> p2pTask \<times> clients
       \<Rightarrow> (p2pTask \<times> clients) go" where
  "p2p_willSendMsg E running inp inp2 onlineFinished st =
     (case st of (p, clients) \<Rightarrow>
        if \<not> onlineFinished then Inr (p, clients)
        else case send_rate (p2p_MsgRate (p2p_cfg p)) of (msgCount, probability) \<Rightarrow>
          go_bind (p2p_sendMsg E running inp inp2 msgCount probability (p2p_pairs p)
                     (clients, p2p_sendMsgCount p))
            (\<lambda>(clients1, n). Inr (p\<lparr>p2p_sendMsgCount := n\<rparr>, clients1)))"

section \<open>Channels\<close>

record channelTask =
  ct_running :: bool
  ct_cfg :: channelCfg
  ct_channelIds :: "string gslice"
  ct_createFinished :: bool
  ct_stats :: "string \<rightharpoonup> int"
  ct_stopped :: bool
  ct_subscribers :: "string list"
  ct_onlineSubscribers :: "string list"
  ct_taskIndex :: int

definition newChannelTask :: "int \<Rightarrow> channelCfg \<Rightarrow> channelTask" where
  "newChannelTask taskIndex cfg =
     \<lparr>ct_running = False, ct_cfg = cfg, ct_channelIds = nil_slice, ct_createFinished = False,
      ct_stats = Map.empty, ct_stopped = False, ct_subscribers = [], ct_onlineSubscribers = [],
      ct_taskIndex = taskIndex\<rparr>"

text \<open>
  The request that creates a channel, and \<^verbatim>\<open>createChannelWithIds\<close>: \<open>create\<close> answers the request,
  \<open>running id\<close> is the flag of the task when the turn of a channel comes, \<open>uids\<close> and \<open>Online\<close> are those
  of the online task.
\<close>

record channelCreateReq =
  req_ChannelId :: string
  req_ChannelType :: byte
  req_Large :: int
  req_Ban :: int
  req_Subscribers :: "string list"
  req_Reset :: int

definition create_request :: "channelTask \<Rightarrow> string \<Rightarrow> channelCreateReq" where
  "create_request c channelId =
     \<lparr>req_ChannelId = channelId, req_ChannelType = word_of_int (ch_Type (ct_cfg c)), req_Large = 0,
      req_Ban = 0, req_Subscribers = ct_subscribers c, req_Reset = 1\<rparr>"

type_synonym create_fn = "channelCreateReq \<Rightarrow> go_error option go"

definition create_one :: "create_fn \<Rightarrow> string \<Rightarrow> channelTask \<Rightarrow> channelTask go" where
  "create_one create channelId c =
     go_bind (create (create_request c channelId)) (\<lambda>r.
       case r of
         Some err \<Rightarrow> Inl Explicit_Panic
       | None \<Rightarrow> Inr (c\<lparr>ct_stats := (ct_stats c)(channelId \<mapsto> 0)\<rparr>))"

definition with_subscribers :: "string \<Rightarrow> int \<Rightarrow> string gslice \<Rightarrow> channelTask \<Rightarrow> channelTask go" where
  "with_subscribers UserPrefix Online uids c =
     (if ct_subscribers c = []
      then go_bind (createSubscribers UserPrefix Online uids (ch_Subscriber (ct_cfg c)))
             (\<lambda>(subs, onl). Inr (c\<lparr>ct_subscribers := subs, ct_onlineSubscribers := onl\<rparr>))
      else Inr c)"

definition createChannelWithIds ::
    "create_fn \<Rightarrow> (string \<Rightarrow> bool) \<Rightarrow> string \<Rightarrow> int \<Rightarrow> string gslice
       \<Rightarrow> string list \<Rightarrow> channelTask \<Rightarrow> channelTask go" where
  "createChannelWithIds create running UserPrefix Online uids channelIds c =
     go_bind (with_subscribers UserPrefix Online uids c)
       (go_each (create_one create) (takeWhile running channelIds))"

definition reCreateChannelIfNeeded ::
    "create_fn \<Rightarrow> (string \<Rightarrow> bool) \<Rightarrow> string \<Rightarrow> int \<Rightarrow> string gslice
       \<Rightarrow> channelTask \<Rightarrow> channelTask go" where
  "reCreateChannelIfNeeded create running UserPrefix Online uids c =
     (if \<not> ct_createFinished c then Inr c
      else
        let failedChannelIds = filter (\<lambda>i. ct_stats c i = None) (elems (ct_channelIds c))
        in if failedChannelIds = [] then Inr c
           else createChannelWithIds create running UserPrefix Online uids failedChannelIds c)"

text \<open>\<^verbatim>\<open>run\<close>: the identifiers, the batches, the flag.\<close>

definition channel_run ::
    "create_fn \<Rightarrow> (nat \<Rightarrow> bool) \<Rightarrow> (string \<Rightarrow> bool) \<Rightarrow> (nat \<Rightarrow> nat) \<Rightarrow> string \<Rightarrow> string
       \<Rightarrow> int \<Rightarrow> string gslice \<Rightarrow> int \<Rightarrow> channelTask \<Rightarrow> channelTask go" where
  "channel_run create running running_id spare ChannelPrefix UserPrefix Online uids per c =
     (let ids = gen_slice spare (genChannelId ChannelPrefix (ct_taskIndex c)) (ch_Count (ct_cfg c));
          c1 = c\<lparr>ct_channelIds := ids\<rparr>
      in go_bind (batches running (ch_Count (ct_cfg c)) per) (\<lambda>bs.
           go_bind (go_each (\<lambda>b c.
               if snd b \<le> fst b \<or> int (slen ids) \<le> fst b then Inr c
               else go_bind (go_slice ids (fst b) (snd b)) (\<lambda>channelIds.
                      createChannelWithIds create running_id UserPrefix Online uids channelIds c)) bs c1)
             (\<lambda>c2. Inr (c2\<lparr>ct_createFinished := True\<rparr>))))"

definition randomOnlineSubscriberClient ::
    "attempt \<Rightarrow> channelTask \<Rightarrow> clients \<Rightarrow> string option go" where
  "randomOnlineSubscriberClient a c clients =
     (if ct_onlineSubscribers c = [] then Inr None
      else go_bind (Intn (int (length (ct_onlineSubscribers c))) (at_choice a)) (\<lambda>k.
             let uid = ct_onlineSubscribers c ! k
             in Inr (if getUserClient clients uid = None then None else Some uid)))"

definition ch_randSend ::
    "env \<Rightarrow> attempt \<Rightarrow> string \<Rightarrow> channelTask \<times> clients \<Rightarrow> (channelTask \<times> clients) go" where
  "ch_randSend E a channelId st =
     (case st of (c, clients) \<Rightarrow>
        go_bind (randomOnlineSubscriberClient a c clients) (\<lambda>r.
          case r of
            None \<Rightarrow> Inr (c, clients)
          | Some uid \<Rightarrow>
              go_bind (send_as E a \<lparr>ChannelID = channelId, ChannelType = word_of_int (ch_Type (ct_cfg c))\<rparr>
                         uid clients)
                (\<lambda>(clients1, r). Inr
                   (case r of
                      Some None \<Rightarrow>
                        (case ct_stats c channelId of
                           None \<Rightarrow> c
                         | Some n \<Rightarrow> c\<lparr>ct_stats := (ct_stats c)(channelId \<mapsto> n + 1)\<rparr>)
                    | _ \<Rightarrow> c, clients1))))"

text \<open>The flag of the task is looked at before every round and before every channel.\<close>

definition ch_sendMsg ::
    "env \<Rightarrow> (nat \<Rightarrow> bool) \<Rightarrow> (nat \<Rightarrow> nat \<Rightarrow> bool) \<Rightarrow> (nat \<Rightarrow> bool) \<Rightarrow> (nat \<Rightarrow> nat \<Rightarrow> attempt)
       \<Rightarrow> (nat \<Rightarrow> attempt) \<Rightarrow> bool \<Rightarrow> int \<Rightarrow> int \<Rightarrow> channelTask \<times> clients \<Rightarrow> (channelTask \<times> clients) go" where
  "ch_sendMsg E running running_at running2 inp inp2 onlineFinished msgCount probability st =
     (let ids = enumerate 0 (elems (ct_channelIds (fst st)))
      in if \<not> onlineFinished then Inr st
         else go_bind
           (go_each (\<lambda>i. go_each (\<lambda>(j, channelId). ch_randSend E (inp i j) channelId)
                            (takeWhile (\<lambda>(j, channelId). running_at i j) ids))
              (takeWhile running [0 ..< nat msgCount]) st)
           (\<lambda>st1.
              if 0 < probability
              then go_each (\<lambda>(j, channelId) st.
                     if canSendMessage probability (at_coin (inp2 j)) then ch_randSend E (inp2 j) channelId st
                     else Inr st) (takeWhile (\<lambda>(j, channelId). running2 j) ids) st1
              else Inr st1))"

definition ch_willSendMsg ::
    "env \<Rightarrow> (nat \<Rightarrow> bool) \<Rightarrow> (nat \<Rightarrow> nat \<Rightarrow> bool) \<Rightarrow> (nat \<Rightarrow> bool) \<Rightarrow> (nat \<Rightarrow> nat \<Rightarrow> attempt)
       \<Rightarrow> (nat \<Rightarrow> attempt) \<Rightarrow> bool \<Rightarrow> channelTask \<times> clients \<Rightarrow> (channelTask \<times> clients) go" where
  "ch_willSendMsg E running running_at running2 inp inp2 onlineFinished st =
     (if \<not> ct_createFinished (fst st) then Inr st
      else if \<not> onlineFinished then Inr st
      else case send_rate (ch_MsgRate (ct_cfg (fst st))) of (msgCount, probability) \<Rightarrow>
        ch_sendMsg E running running_at running2 inp inp2 onlineFinished msgCount probability st)"

section \<open>Random users\<close>

definition randomOnlineUser :: "nat \<Rightarrow> string list \<Rightarrow> string go" where
  "randomOnlineUser draw uids =
     (if uids = [] then Inr []
      else go_bind (Intn (int (length uids)) draw) (\<lambda>rd. go_index uids (int rd)))"

definition randomOnlineUserMax :: "nat \<Rightarrow> int \<Rightarrow> string list \<Rightarrow> string go" where
  "randomOnlineUserMax draw e uids =
     (if uids = [] then Inr []
      else go_bind (Intn e draw) (\<lambda>rd. go_index uids (int rd)))"

text \<open>Three tries, then any client; \<open>anyone\<close> is the client that the iteration over the map comes to.\<close>

fun random_client :: "(nat \<Rightarrow> string go) \<Rightarrow> nat list \<Rightarrow> clients \<Rightarrow> string option \<Rightarrow> string option go" where
  "random_client user [] clients anyone = Inr anyone"
| "random_client user (d # ds) clients anyone =
     go_bind (user d) (\<lambda>uid.
       if clients uid = None then random_client user ds clients anyone else Inr (Some uid))"

definition randomOnlineClient ::
    "nat \<times> nat \<times> nat \<Rightarrow> string option \<Rightarrow> string list \<Rightarrow> clients \<Rightarrow> string option go" where
  "randomOnlineClient draws anyone uids clients =
     (case draws of (d1, d2, d3) \<Rightarrow>
        random_client (\<lambda>d. randomOnlineUser d uids) [d1, d2, d3] clients anyone)"

definition randomOnlineClientMax ::
    "nat \<times> nat \<times> nat \<Rightarrow> int \<Rightarrow> string option \<Rightarrow> string list \<Rightarrow> clients \<Rightarrow> string option go" where
  "randomOnlineClientMax draws e anyone uids clients =
     (case draws of (d1, d2, d3) \<Rightarrow>
        random_client (\<lambda>d. randomOnlineUserMax d e uids) [d1, d2, d3] clients anyone)"

section \<open>Properties\<close>

lemma minute_fraction_bounds:
  assumes "0 < r" and "r < 60"
  shows "\<bar>60 * minute_fraction r - r * 2 ^ 60\<bar> \<le> 3840 \<and> 0 < minute_fraction r \<and> minute_fraction r < 2 ^ 60"
proof -
  define k where "k = spare_bits (r * 2 ^ 60 div 60)"
  have "r * 2 ^ 60 div 60 < 2 ^ (53 + 7)" using assms by simp
  then have "k \<le> 7" unfolding k_def by (rule spare_bits_le)
  then have k: "(2 :: int) ^ k \<le> 2 ^ 7" by (intro power_increasing) simp_all
  have "2 * \<bar>half_even (r * 2 ^ 60) (60 * 2 ^ k) * (60 * 2 ^ k) - r * 2 ^ 60\<bar> \<le> 60 * 2 ^ k"
    by (rule half_even_error) simp
  moreover have "60 * minute_fraction r = half_even (r * 2 ^ 60) (60 * 2 ^ k) * (60 * 2 ^ k)"
    unfolding minute_fraction_def k_def Let_def by simp
  ultimately have e: "\<bar>60 * minute_fraction r - r * 2 ^ 60\<bar> \<le> 3840" using k by simp
  moreover have "1 * 2 ^ 60 \<le> r * 2 ^ 60" "r * 2 ^ 60 \<le> 59 * 2 ^ 60" using assms by simp_all
  moreover have "r * 2 ^ 60 - 3840 \<le> 60 * minute_fraction r" "60 * minute_fraction r \<le> r * 2 ^ 60 + 3840"
    using e by linarith+
  ultimately show ?thesis by simp
qed

lemma send_rate_negative: "rate < 0 \<Longrightarrow> fst (send_rate rate) \<le> 0 \<and> snd (send_rate rate) = 0"
  using pos_mod_sign [of 60 "- rate"] pos_imp_zdiv_nonneg_iff [of 60 "- rate"]
  by (auto simp: send_rate_def go_div_def go_mod_def signed_divide_int_def signed_modulo_int_def
      minus_div_mult_eq_mod)

text \<open>
  C36. The rates: over a minute, \<open>60\<close> seconds of the whole messages and of the probability of one
  more come to the configured rate, up to the rounding of the probability (less than \<open>2 ^ -48\<close> of a
  message); the fraction is drawn for exactly when the rate is no multiple of 60, and never certain.
\<close>

theorem rate_over_a_minute:
  assumes "0 \<le> rate"
  shows "case send_rate rate of (n, p) \<Rightarrow>
    n = rate div 60 \<and> 0 \<le> p \<and> p < 2 ^ 60 \<and> (p = 0 \<longleftrightarrow> 60 dvd rate) \<and>
    \<bar>60 * (n * 2 ^ 60 + p) - rate * 2 ^ 60\<bar> \<le> 3840"
proof (cases "60 dvd rate")
  case True
  then show ?thesis
    using assms by (auto simp: send_rate_def go_div_nonneg go_mod_nonneg)
next
  case False
  then have r: "0 < rate mod 60" "rate mod 60 < 60"
    using pos_mod_sign [of 60 rate] by (auto simp: dvd_eq_mod_eq_0 order_less_le)
  have "rate = 60 * (rate div 60) + rate mod 60" by simp
  then have eq: "60 * (rate div 60 * 2 ^ 60 + p) - rate * 2 ^ 60 = 60 * p - rate mod 60 * 2 ^ 60" for p
    by (metis (no_types, lifting) add_diff_cancel_left distrib_left distrib_right mult.assoc)
  have "send_rate rate = (rate div 60, minute_fraction (rate mod 60))"
    using r assms by (simp add: send_rate_def go_div_nonneg go_mod_nonneg)
  with minute_fraction_bounds [OF r] False show ?thesis
    unfolding prod.case by (simp only: prod.case eq) auto
qed

theorem rate_over_a_minute_witness:
  "fst (send_rate 90) = 1 \<and> 0 < snd (send_rate 90) \<and> send_rate 120 = (2, 0)"
  using rate_over_a_minute [of 90] rate_over_a_minute [of 120] by (auto split: prod.splits)

subsection \<open>Counting what is sent\<close>

text \<open>
  A measure of what attempts to send may change, with the number of attempts as its cost: what holds
  of one attempt holds of the rounds of a second and of the round for the fraction.
\<close>

locale attempt_cost =
  fixes R :: "int \<Rightarrow> 's \<Rightarrow> 's \<Rightarrow> bool"
  assumes cost_refl: "R 0 s s"
    and cost_trans: "R m a b \<Longrightarrow> R n b c \<Longrightarrow> R (m + n) a c"
    and cost_mono: "R m a b \<Longrightarrow> m \<le> n \<Longrightarrow> R n a b"
begin

lemma skipped: "0 \<le> n \<Longrightarrow> R n s s"
  by (rule cost_mono [OF cost_refl])

lemma loop:
  assumes "go_each f xs s = Inr s'" and "\<And>x s s'. x \<in> set xs \<Longrightarrow> f x s = Inr s' \<Longrightarrow> R (int b) s s'"
    and "length xs \<le> k"
  shows "R (int k * int b) s s'"
proof (rule cost_mono)
  show "R (int (length xs) * int b) s s'"
    by (rule go_each_cost [where R = R, OF assms(1,2) cost_refl cost_trans])
  show "int (length xs) * int b \<le> int k * int b" using assms(3) by (intro mult_right_mono) simp_all
qed

lemma two_phases:
  assumes "go_bind (go_each (\<lambda>i. go_each (g i) (xs i)) is st)
      (\<lambda>st1. if 0 < (pr :: int) then go_each h ys st1 else Inr st1) = Inr st'"
    and "\<And>i x s s'. g i x s = Inr s' \<Longrightarrow> R 1 s s'" and "\<And>x s s'. h x s = Inr s' \<Longrightarrow> R 1 s s'"
    and "length is \<le> n" and "\<And>i. length (xs i) \<le> k" and "length ys \<le> k"
  shows "R (int k * (int n + (if 0 < pr then 1 else 0))) st st'"
proof -
  obtain st1 where s1: "go_each (\<lambda>i. go_each (g i) (xs i)) is st = Inr st1"
    and s2: "(if 0 < pr then go_each h ys st1 else Inr st1) = Inr st'"
    using assms(1) by (rule go_bindE)
  have round: "R (int k) s s'" if "go_each (g i) (xs i) s = Inr s'" for i s s'
    using loop [OF that, of 1 k] assms(2,5) by simp
  have first: "R (int n * int k) st st1" by (rule loop [OF s1 round assms(4)])
  show ?thesis
  proof (cases "0 < pr")
    case True
    have "R (int k) st1 st'" using loop [OF s2 [unfolded if_P [OF True]], of 1 k] assms(3,6) by simp
    from cost_trans [OF first this] True show ?thesis by (simp add: algebra_simps)
  next
    case False
    with first s2 show ?thesis by (simp add: mult.commute)
  qed
qed

end

lemma tc_send_counts:
  "tc_send E ch payload uuid now now2 t = Inr (t', e) \<Longrightarrow> sendCount t' = sendCount t + 1"
  by (auto simp: tc_send_def send_begin_def send_record_def Let_def elim!: go_bindE split: sum.splits prod.splits)

definition sent_total :: "clients \<Rightarrow> int" where
  "sent_total clients = (\<Sum>u \<in> dom clients. sendCount (the (clients u)))"

lemma send_as_counts:
  assumes "send_as E a ch uid clients = Inr (clients', r)" and "finite (dom clients)"
  shows "dom clients' = dom clients \<and>
    sent_total clients' = sent_total clients + (if r = None then 0 else 1)"
proof (cases "\<exists>t. clients uid = Some t \<and> tc_isConnected t")
  case False
  then show ?thesis using assms(1) by (auto simp: send_as_def getUserClient_def split: option.splits)
next
  case True
  then obtain t where t: "clients uid = Some t" "tc_isConnected t" by blast
  then obtain t' e where s: "tc_send E ch getMockMsg (at_uuid a) (at_sent a) (at_recorded a) t = Inr (t', e)"
    and eq: "clients' = clients(uid \<mapsto> t')" "r = Some e"
    using assms(1) by (auto simp: send_as_def getUserClient_def elim!: go_bindE)
  have "sent_total clients = sendCount t + (\<Sum>u \<in> dom clients - {uid}. sendCount (the (clients u)))"
    unfolding sent_total_def using assms(2) t(1) by (subst sum.remove [of _ uid]) auto
  moreover have "sent_total clients' = sendCount t' + (\<Sum>u \<in> dom clients - {uid}. sendCount (the (clients u)))"
    unfolding sent_total_def eq using assms(2) t(1)
    by (subst sum.remove [of _ uid]) (auto simp: insert_absorb intro!: sum.cong)
  ultimately show ?thesis using tc_send_counts [OF s] t(1) eq by auto
qed

text \<open>What a number \<open>n\<close> of attempts may change.\<close>

definition p2p_account :: "int \<Rightarrow> clients \<times> int \<Rightarrow> clients \<times> int \<Rightarrow> bool" where
  "p2p_account n st st' \<longleftrightarrow>
     (finite (dom (fst st)) \<longrightarrow>
        dom (fst st') = dom (fst st) \<and> snd st' - snd st = sent_total (fst st') - sent_total (fst st) \<and>
        snd st \<le> snd st' \<and> snd st' \<le> snd st + n)"

lemma p2p_account_refl: "p2p_account 0 st st"
  by (simp add: p2p_account_def)

lemma p2p_account_trans: "p2p_account m a b \<Longrightarrow> p2p_account n b c \<Longrightarrow> p2p_account (m + n) a c"
  by (auto simp: p2p_account_def)

lemma p2p_account_mono: "p2p_account m a b \<Longrightarrow> m \<le> n \<Longrightarrow> p2p_account n a b"
  by (auto simp: p2p_account_def)

lemma p2p_randSend_account:
  assumes "p2p_randSend E a pair st = Inr st'"
  shows "p2p_account 1 st st'"
proof -
  obtain cl n where st: "st = (cl, n)" by fastforce
  obtain k where "Intn 2 (at_choice a) = Inr k" using assms by (auto simp: st p2p_randSend_def elim: go_bindE)
  moreover obtain u v where "p2p_direction k pair = (u, v)" by fastforce
  ultimately obtain cl1 r where
    s: "send_as E a \<lparr>ChannelID = v, ChannelType = ChannelTypePerson\<rparr> u cl = Inr (cl1, r)"
    and st': "st' = (cl1, case r of None \<Rightarrow> n | Some err \<Rightarrow> n + 1)"
    using assms by (auto simp: st p2p_randSend_def elim!: go_bindE)
  show ?thesis
    unfolding p2p_account_def st st' fst_conv snd_conv
    by (rule impI) (use send_as_counts [OF s] in \<open>cases r; simp\<close>)
qed

interpretation p2p_cost: attempt_cost p2p_account
  by (rule attempt_cost.intro, rule p2p_account_refl, rule p2p_account_trans, assumption+)
    (rule p2p_account_mono)

lemma p2p_sendMsg_account:
  assumes "p2p_sendMsg E running inp inp2 msgCount probability pairs st = Inr st'"
  shows "p2p_account (int (length pairs) * (int (nat msgCount) + (if 0 < probability then 1 else 0))) st st'"
proof (rule p2p_cost.two_phases [OF assms [unfolded p2p_sendMsg_def]])
  show "length (takeWhile running [0 ..< nat msgCount]) \<le> nat msgCount"
    using length_takeWhile_le [of running "[0 ..< nat msgCount]"] by simp
next
  fix i x s s'
  assume "(case x of (j, pair) \<Rightarrow> p2p_randSend E (inp i j) pair) s = Inr s'"
  then show "p2p_account 1 s s'" by (cases x) (simp add: p2p_randSend_account)
next
  fix x s s'
  assume "(case x of (j, pair) \<Rightarrow> \<lambda>st. if canSendMessage probability (at_coin (inp2 j))
             then p2p_randSend E (inp2 j) pair st else Inr st) s = Inr s'"
  then show "p2p_account 1 s s'"
    by (cases x) (use p2p_cost.skipped [of 1] in \<open>simp add: p2p_randSend_account split: if_split_asm\<close>)
qed simp_all

definition stats_total :: "channelTask \<Rightarrow> int" where
  "stats_total c = (\<Sum>i \<in> dom (ct_stats c). the (ct_stats c i))"

definition ch_account :: "int \<Rightarrow> channelTask \<times> clients \<Rightarrow> channelTask \<times> clients \<Rightarrow> bool" where
  "ch_account n st st' \<longleftrightarrow>
     (finite (dom (snd st)) \<and> finite (dom (ct_stats (fst st))) \<longrightarrow>
        dom (snd st') = dom (snd st) \<and> dom (ct_stats (fst st')) = dom (ct_stats (fst st)) \<and>
        fst st' = (fst st)\<lparr>ct_stats := ct_stats (fst st')\<rparr> \<and>
        stats_total (fst st) \<le> stats_total (fst st') \<and>
        stats_total (fst st') - stats_total (fst st) \<le> sent_total (snd st') - sent_total (snd st) \<and>
        sent_total (snd st') \<le> sent_total (snd st) + n)"

lemma ch_account_refl: "ch_account 0 st st"
  by (simp add: ch_account_def)

lemma ch_account_trans:
  assumes "ch_account m a b" and "ch_account n b c"
  shows "ch_account (m + n) a c"
proof -
  have "fst c = (fst a)\<lparr>ct_stats := ct_stats (fst c)\<rparr>"
    if "fst b = (fst a)\<lparr>ct_stats := ct_stats (fst b)\<rparr>" "fst c = (fst b)\<lparr>ct_stats := ct_stats (fst c)\<rparr>"
    by (metis that channelTask.surjective channelTask.update_convs(5))
  note frame = this
  show ?thesis
    unfolding ch_account_def
  proof (rule impI)
    assume fin: "finite (dom (snd a)) \<and> finite (dom (ct_stats (fst a)))"
    note A = assms(1) [unfolded ch_account_def, rule_format, OF fin]
    have "finite (dom (snd b)) \<and> finite (dom (ct_stats (fst b)))" using A fin by metis
    note B = assms(2) [unfolded ch_account_def, rule_format, OF this]
    have "dom (snd c) = dom (snd a)" "dom (ct_stats (fst c)) = dom (ct_stats (fst a))" using A B by metis+
    moreover have "fst c = (fst a)\<lparr>ct_stats := ct_stats (fst c)\<rparr>" using A B by (intro frame) blast+
    moreover have "stats_total (fst a) \<le> stats_total (fst c)"
      "stats_total (fst c) - stats_total (fst a) \<le> sent_total (snd c) - sent_total (snd a)"
      "sent_total (snd c) \<le> sent_total (snd a) + (m + n)" using A B by linarith+
    ultimately show "dom (snd c) = dom (snd a) \<and> dom (ct_stats (fst c)) = dom (ct_stats (fst a)) \<and>
        fst c = (fst a)\<lparr>ct_stats := ct_stats (fst c)\<rparr> \<and> stats_total (fst a) \<le> stats_total (fst c) \<and>
        stats_total (fst c) - stats_total (fst a) \<le> sent_total (snd c) - sent_total (snd a) \<and>
        sent_total (snd c) \<le> sent_total (snd a) + (m + n)" by blast
  qed
qed

lemma ch_account_mono: "ch_account m a b \<Longrightarrow> m \<le> n \<Longrightarrow> ch_account n a b"
  by (auto simp: ch_account_def)

lemma stats_total_bump:
  assumes "ct_stats c i = Some n" and "finite (dom (ct_stats c))"
  shows "dom (ct_stats (c\<lparr>ct_stats := (ct_stats c)(i \<mapsto> n + 1)\<rparr>)) = dom (ct_stats c) \<and>
    stats_total (c\<lparr>ct_stats := (ct_stats c)(i \<mapsto> n + 1)\<rparr>) = stats_total c + 1"
proof -
  let ?R = "\<Sum>j \<in> dom (ct_stats c) - {i}. the (ct_stats c j)"
  have "stats_total c = n + ?R"
    unfolding stats_total_def using assms by (subst sum.remove [of _ i]) auto
  moreover have "stats_total (c\<lparr>ct_stats := (ct_stats c)(i \<mapsto> n + 1)\<rparr>) = n + 1 + ?R"
    unfolding stats_total_def using assms
    by (subst sum.remove [of _ i]) (auto simp: insert_absorb intro!: sum.cong)
  ultimately show ?thesis using assms by auto
qed

lemma ch_randSend_account:
  assumes "ch_randSend E a channelId st = Inr st'"
  shows "ch_account 1 st st'"
proof -
  obtain c cl where st: "st = (c, cl)" by fastforce
  obtain r where r: "randomOnlineSubscriberClient a c cl = Inr r"
    using assms by (auto simp: st ch_randSend_def elim: go_bindE)
  show ?thesis
  proof (cases r)
    case None
    then have "st' = st" using assms r by (simp add: st ch_randSend_def)
    then show ?thesis using ch_account_mono [OF ch_account_refl, of 1] by simp
  next
    case (Some uid)
    then obtain cl1 q where
      s: "send_as E a \<lparr>ChannelID = channelId, ChannelType = word_of_int (ch_Type (ct_cfg c))\<rparr> uid cl = Inr (cl1, q)"
      and st': "st' = (case q of
          Some None \<Rightarrow> (case ct_stats c channelId of None \<Rightarrow> c
             | Some n \<Rightarrow> c\<lparr>ct_stats := (ct_stats c)(channelId \<mapsto> n + 1)\<rparr>)
        | _ \<Rightarrow> c, cl1)"
      using assms r by (auto simp: st ch_randSend_def elim!: go_bindE)
    show ?thesis
    proof (cases "q = Some None \<and> ct_stats c channelId \<noteq> None")
      case True
      then obtain n where n: "ct_stats c channelId = Some n" by auto
      with True have "st' = (c\<lparr>ct_stats := (ct_stats c)(channelId \<mapsto> n + 1)\<rparr>, cl1)" by (simp add: st')
      then show ?thesis
        unfolding ch_account_def st fst_conv snd_conv
        using send_as_counts [OF s] stats_total_bump [OF n] True by simp
    next
      case False
      then have "st' = (c, cl1)" by (auto simp: st' split: option.splits)
      then show ?thesis
        unfolding ch_account_def st fst_conv snd_conv
        by (intro impI) (use send_as_counts [OF s] in \<open>cases q; simp\<close>)
    qed
  qed
qed

text \<open>A task's second, for every account that a single attempt keeps.\<close>

locale channel_cost = attempt_cost R
  for R :: "int \<Rightarrow> channelTask \<times> clients \<Rightarrow> channelTask \<times> clients \<Rightarrow> bool" +
  assumes attempt: "ch_randSend E a channelId st = Inr st' \<Longrightarrow> R 1 st st'"
begin

lemma sendMsg:
  assumes "ch_sendMsg E running running_at running2 inp inp2 onlineFinished msgCount probability st = Inr st'"
  shows "R (int (length (elems (ct_channelIds (fst st)))) *
    (int (nat msgCount) + (if 0 < probability then 1 else 0))) st st'"
proof (cases onlineFinished)
  case False
  then have "st' = st" using assms by (simp add: ch_sendMsg_def Let_def)
  then show ?thesis using skipped by simp
next
  case True
  let ?ids = "enumerate 0 (elems (ct_channelIds (fst st)))"
  have "go_bind
      (go_each (\<lambda>i. go_each (\<lambda>(j, channelId). ch_randSend E (inp i j) channelId)
          (takeWhile (\<lambda>(j, channelId). running_at i j) ?ids)) (takeWhile running [0 ..< nat msgCount]) st)
      (\<lambda>st1. if 0 < probability
        then go_each (\<lambda>(j, channelId) st. if canSendMessage probability (at_coin (inp2 j))
               then ch_randSend E (inp2 j) channelId st else Inr st) (takeWhile (\<lambda>(j, channelId). running2 j) ?ids) st1
        else Inr st1) = Inr st'"
    using assms True by (simp add: ch_sendMsg_def Let_def)
  then show ?thesis
  proof (rule two_phases)
    show "length (takeWhile running [0 ..< nat msgCount]) \<le> nat msgCount"
      using length_takeWhile_le [of running "[0 ..< nat msgCount]"] by simp
    show "length (takeWhile f ?ids) \<le> length (elems (ct_channelIds (fst st)))" for f
      using length_takeWhile_le [of f ?ids] by simp
    then show "length (takeWhile f ?ids) \<le> length (elems (ct_channelIds (fst st)))" for f .
  next
    fix i x s s'
    assume "(case x of (j, channelId) \<Rightarrow> ch_randSend E (inp i j) channelId) s = Inr s'"
    then show "R 1 s s'" by (cases x) (simp add: attempt)
  next
    fix x s s'
    assume "(case x of (j, channelId) \<Rightarrow> \<lambda>st. if canSendMessage probability (at_coin (inp2 j))
               then ch_randSend E (inp2 j) channelId st else Inr st) s = Inr s'"
    then show "R 1 s s'"
      by (cases x) (use skipped [of 1] in \<open>simp add: attempt split: if_split_asm\<close>)
  qed
qed

lemma willSendMsg:
  assumes "ch_willSendMsg E running running_at running2 inp inp2 onlineFinished st = Inr st'"
  shows "R (int (length (elems (ct_channelIds (fst st)))) *
    (int (nat (fst (send_rate (ch_MsgRate (ct_cfg (fst st)))))) + 1)) st st'"
proof (cases "ct_createFinished (fst st) \<and> onlineFinished")
  case False
  then have "st' = st" using assms by (cases "ct_createFinished (fst st)") (simp_all add: ch_willSendMsg_def)
  then show ?thesis using skipped by simp
next
  case True
  obtain n pr where r: "send_rate (ch_MsgRate (ct_cfg (fst st))) = (n, pr)" by fastforce
  with True assms have
    "ch_sendMsg E running running_at running2 inp inp2 onlineFinished n pr st = Inr st'"
    by (simp add: ch_willSendMsg_def)
  from sendMsg [OF this] show ?thesis
    by (rule cost_mono) (auto simp: r intro!: mult_left_mono)
qed

end

interpretation ch_cost: channel_cost ch_account
  by (intro channel_cost.intro attempt_cost.intro channel_cost_axioms.intro)
    (rule ch_account_refl, rule ch_account_trans, assumption+, rule ch_account_mono, assumption+,
      rule ch_randSend_account)

text \<open>Sending changes nothing of a task but the counts of its channels, which only grow.\<close>

definition counts_grow :: "channelTask \<Rightarrow> channelTask \<Rightarrow> bool" where
  "counts_grow c c' \<longleftrightarrow> c' = c\<lparr>ct_stats := ct_stats c'\<rparr> \<and>
     (\<forall>i n. ct_stats c i = Some n \<longrightarrow> (\<exists>n'. ct_stats c' i = Some n' \<and> n \<le> n'))"

lemma counts_grow_trans: "counts_grow a b \<Longrightarrow> counts_grow b c \<Longrightarrow> counts_grow a c"
  unfolding counts_grow_def
  by (intro conjI) (metis channelTask.surjective channelTask.update_convs(5), meson order.trans)

interpretation ch_frame: channel_cost "\<lambda>_ st st'. counts_grow (fst st) (fst st')"
proof
  show "counts_grow (fst s) (fst s)" for s :: "channelTask \<times> clients" by (simp add: counts_grow_def)
  show "counts_grow (fst st) (fst st')" if "ch_randSend E a channelId st = Inr st'" for E a channelId st st'
    using that by (cases st) (auto simp: ch_randSend_def counts_grow_def elim!: go_bindE split: option.splits)
qed (rule counts_grow_trans)

subsection \<open>The counters of the tasks\<close>

definition demo_user :: "string \<Rightarrow> testClient" where
  "demo_user uid =
     \<lparr>tc_cli = demo_up, preSendCount = 0, sendCount = 0, sendBytes = 0, preSendBytes = 0, preRecv = 0,
      recvCount = 0, recvBytes = 0, preRecvBytes = 0, sendSuccess = 0, sendErr = 0,
      sendMap = Map.empty, sendSuccessMap = Map.empty, tc_uid = uid, tc_stopped = False\<rparr>"

definition demo_users :: clients where
  "demo_users = [''a'' \<mapsto> demo_user ''a'', ''b'' \<mapsto> demo_user ''b'']"

definition demo_attempt :: attempt where
  "demo_attempt = \<lparr>at_choice = 1, at_coin = 0, at_uuid = ''m'', at_sent = 10, at_recorded = 11\<rparr>"

lemma p2p_willSendMsg_account:
  assumes "p2p_willSendMsg E running inp inp2 onlineFinished (p, clients) = Inr (p', clients')"
    and "finite (dom clients)"
  shows "p' = p\<lparr>p2p_sendMsgCount := p2p_sendMsgCount p'\<rparr> \<and> dom clients' = dom clients \<and>
    p2p_sendMsgCount p' - p2p_sendMsgCount p = sent_total clients' - sent_total clients \<and>
    p2p_sendMsgCount p \<le> p2p_sendMsgCount p' \<and>
    p2p_sendMsgCount p' \<le> p2p_sendMsgCount p +
      int (length (p2p_pairs p)) * (int (nat (fst (send_rate (p2p_MsgRate (p2p_cfg p))))) + 1)"
proof (cases onlineFinished)
  case False
  then show ?thesis using assms(1) by (simp add: p2p_willSendMsg_def)
next
  case True
  obtain n pr where r: "send_rate (p2p_MsgRate (p2p_cfg p)) = (n, pr)" by fastforce
  with True assms(1) obtain k
    where "p2p_sendMsg E running inp inp2 n pr (p2p_pairs p) (clients, p2p_sendMsgCount p) = Inr (clients', k)"
      and p': "p' = p\<lparr>p2p_sendMsgCount := k\<rparr>"
    by (auto simp: p2p_willSendMsg_def elim!: go_bindE)
  then have "p2p_account (int (length (p2p_pairs p)) * (int (nat n) + (if 0 < pr then 1 else 0)))
      (clients, p2p_sendMsgCount p) (clients', k)" by (intro p2p_sendMsg_account)
  then have "p2p_account (int (length (p2p_pairs p)) * (int (nat n) + 1))
      (clients, p2p_sendMsgCount p) (clients', k)"
    by (rule p2p_account_mono) (auto intro!: mult_left_mono)
  then show ?thesis using assms(2) by (simp add: p2p_account_def p' r)
qed

text \<open>
  C29. One second of a private-chat task: its counter grows by exactly the number of messages that
  were handed to the clients, whether \<^verbatim>\<open>send\<close> succeeded or not, so by at most the messages per
  second and one more for every pair; nothing else of the task and no entry of the client map changes.
\<close>

theorem p2p_sends_counted:
  assumes "p2p_willSendMsg E running inp inp2 onlineFinished (p, clients) = Inr (p', clients')"
    and "finite (dom clients)"
  shows "p' = p\<lparr>p2p_sendMsgCount := p2p_sendMsgCount p'\<rparr> \<and> dom clients' = dom clients \<and>
    p2p_sendMsgCount p' - p2p_sendMsgCount p = sent_total clients' - sent_total clients \<and>
    p2p_sendMsgCount p \<le> p2p_sendMsgCount p' \<and>
    p2p_sendMsgCount p' \<le> p2p_sendMsgCount p +
      int (length (p2p_pairs p)) * (int (nat (fst (send_rate (p2p_MsgRate (p2p_cfg p))))) + 1)"
  using p2p_willSendMsg_account [OF assms] .

theorem p2p_sends_counted_witness:
  "\<exists>p' clients'. p2p_willSendMsg demo_env (\<lambda>_. True) (\<lambda>_ _. demo_attempt) (\<lambda>_. demo_attempt) True
       ((newP2pTask \<lparr>p2p_Count = 1, p2p_MsgRate = 60\<rparr>)\<lparr>p2p_pairs := [(''a'', ''b'')]\<rparr>, demo_users) =
     Inr (p', clients') \<and> p2p_sendMsgCount p' = 1 \<and> sent_total clients' = sent_total demo_users + 1"
proof -
  let ?p = "(newP2pTask \<lparr>p2p_Count = 1, p2p_MsgRate = 60\<rparr>)\<lparr>p2p_pairs := [(''a'', ''b'')]\<rparr>"
  let ?r = "p2p_willSendMsg demo_env (\<lambda>_. True) (\<lambda>_ _. demo_attempt) (\<lambda>_. demo_attempt) True (?p, demo_users)"
  have ev: "case ?r of Inr (p', clients') \<Rightarrow> p2p_sendMsgCount p' = 1 | _ \<Rightarrow> False" by code_simp
  then obtain p' clients' where r: "?r = Inr (p', clients')" and c: "p2p_sendMsgCount p' = 1"
    by (cases ?r) auto
  moreover have "finite (dom demo_users)" by (simp add: demo_users_def)
  ultimately show ?thesis using p2p_sends_counted [OF r] by (simp add: newP2pTask_def)
qed


definition demo_channel :: channelTask where
  "demo_channel =
     (newChannelTask 0 \<lparr>ch_Count = 1, ch_Type = 2, ch_Subscriber = Some \<lparr>sub_Count = 2, sub_Online = 2\<rparr>,
        ch_MsgRate = 60\<rparr>)
       \<lparr>ct_channelIds := \<lparr>backing = [''c''], slen = 1\<rparr>, ct_createFinished := True, ct_stats := [''c'' \<mapsto> 4],
        ct_subscribers := [''a'', ''b''], ct_onlineSubscribers := [''a'', ''b'']\<rparr>"


end
