(* ===== verification/Im_Api.thy ===== *)
theory Im_Api
  imports Task_Sending
begin

text \<open>
  The client of the HTTP interface of the server under test, \<^verbatim>\<open>server/wukongim_api.go\<close>. Requests over
  the network, the JSON encoder and decoder and \<^verbatim>\<open>BoolToInt\<close> come from other packages and are a
  parameter.
\<close>

section \<open>The interface\<close>

record http_response =
  StatusCode :: int
  Body :: string

record userAddrResp =
  TCPAddr :: string
  WSAddr :: string
  UIDs :: "string list"

datatype json = JString string | JOther

record api_lib =
  Post :: "string \<Rightarrow> string \<Rightarrow> go_error + http_response"
  ToJSON_uids :: "string list \<Rightarrow> string"
  ToJSON_channel :: "channelCreateReq \<Rightarrow> string"
  ReadJSON_addrs :: "string \<Rightarrow> go_error + userAddrResp list"
  JSONToMap :: "string \<Rightarrow> go_error + (string \<Rightarrow> json option)"
  BoolToInt :: "bool \<Rightarrow> int"

definition getFullURL :: "string \<Rightarrow> string \<Rightarrow> string" where
  "getFullURL baseURL path = TrimSpace (TrimSuffix baseURL ''/'') @ path"

text \<open>The map of addresses: entries in the order of the answer, later ones replacing earlier ones.\<close>

definition enter_uids :: "userAddrResp \<Rightarrow> (string \<rightharpoonup> string) \<Rightarrow> (string \<rightharpoonup> string)" where
  "enter_uids userAddr m = foldl (\<lambda>m uid. m(uid \<mapsto> TCPAddr userAddr)) m (UIDs userAddr)"

definition route_map :: "userAddrResp list \<Rightarrow> (string \<rightharpoonup> string)" where
  "route_map userAddrs = foldl (\<lambda>m a. enter_uids a m) Map.empty userAddrs"

definition api_route ::
    "api_lib \<Rightarrow> string \<Rightarrow> string list \<Rightarrow> bool \<Rightarrow> go_error + (string \<rightharpoonup> string)" where
  "api_route L baseURL uids intranet =
     (case Post L (getFullURL baseURL (''/route/batch?intranet='' @ itoa (BoolToInt L intranet)))
             (ToJSON_uids L uids) of
        Inl err \<Rightarrow> Inl err
      | Inr resp \<Rightarrow>
          if StatusCode resp \<noteq> 200 then Inl Err_Request_Failed
          else (case ReadJSON_addrs L (Body resp) of
                  Inl err \<Rightarrow> Inl err
                | Inr userAddrs \<Rightarrow> Inr (route_map userAddrs)))"

definition handleError :: "api_lib \<Rightarrow> http_response \<Rightarrow> go_error go" where
  "handleError L resp =
     (if StatusCode resp = 400 then
        (case JSONToMap L (Body resp) of
           Inl err \<Rightarrow> Inr err
         | Inr resultMap \<Rightarrow>
             (case resultMap ''msg'' of
                None \<Rightarrow> Inr Err_Unknown
              | Some (JString msg) \<Rightarrow> Inr (Err_Message msg)
              | Some JOther \<Rightarrow> Inl Type_Assertion))
      else Inr Err_Unknown)"

definition api_createChannel :: "api_lib \<Rightarrow> string \<Rightarrow> channelCreateReq \<Rightarrow> go_error option go" where
  "api_createChannel L baseURL req =
     (case Post L (getFullURL baseURL ''/channel'') (ToJSON_channel L req) of
        Inl err \<Rightarrow> Inr (Some err)
      | Inr resp \<Rightarrow>
          if StatusCode resp \<noteq> 200 then go_bind (handleError L resp) (\<lambda>e. Inr (Some e))
          else Inr None)"

section \<open>Properties\<close>

lemma enter_uids_apply:
  "enter_uids a m uid = (if uid \<in> set (UIDs a) then Some (TCPAddr a) else m uid)"
proof -
  have "foldl (\<lambda>m uid. m(uid \<mapsto> t)) m us uid = (if uid \<in> set us then Some t else m uid)" for t us
    by (induction us arbitrary: m) auto
  then show ?thesis by (simp add: enter_uids_def)
qed

text \<open>The last entry that names a user.\<close>

definition last_naming :: "string \<Rightarrow> userAddrResp list \<Rightarrow> userAddrResp option" where
  "last_naming uid as = find (\<lambda>a. uid \<in> set (UIDs a)) (rev as)"

lemma route_map_last: "route_map as uid = map_option TCPAddr (last_naming uid as)"
  by (induction as rule: rev_induct)
    (auto simp: route_map_def last_naming_def enter_uids_apply)

lemma api_createChannel_ok:
  "api_createChannel L baseURL req = Inr None \<longleftrightarrow>
   (\<exists>body. Post L (getFullURL baseURL ''/channel'') (ToJSON_channel L req) =
      Inr \<lparr>StatusCode = 200, Body = body\<rparr>)"
proof (cases "Post L (getFullURL baseURL ''/channel'') (ToJSON_channel L req)")
  case (Inl e)
  then show ?thesis by (simp add: api_createChannel_def)
next
  case (Inr r)
  then show ?thesis
    by (cases r; cases "handleError L r") (auto simp: api_createChannel_def)
qed

end
