(* ===== verification/Server_Options.thy ===== *)
theory Server_Options
  imports Wk_Uuid
begin

text \<open>
  The configuration of a test machine: \<^verbatim>\<open>server/options.go\<close>, with the address helpers of
  \<^verbatim>\<open>pkg/wkutil/ip.go\<close> it names the machine with. The files of the data directory are a map from
  their names; the network interfaces and the text of the UUID are given.
\<close>

section \<open>Intranet addresses\<close>

datatype ip_addr = Ip4 byte byte byte byte | Ip6 bool | No_Ip

text \<open>\<open>Ip6\<close> tells whether the address is the loopback address; \<open>No_Ip\<close> is an address of another kind.\<close>

definition ip4_string :: "byte \<Rightarrow> byte \<Rightarrow> byte \<Rightarrow> byte \<Rightarrow> string" where
  "ip4_string a b c d =
     dec (unat a) @ CHR ''.'' # dec (unat b) @ CHR ''.'' # dec (unat c) @ CHR ''.'' # dec (unat d)"

definition IsIntranet :: "string \<Rightarrow> bool" where
  "IsIntranet ipStr \<longleftrightarrow>
     (if ipStr = ''43.160.247.125'' then True
      else if HasPrefix ipStr ''10.'' \<or> HasPrefix ipStr ''192.168.'' then True
      else if HasPrefix ipStr ''172.'' then
        (let arr = Split ipStr ''.''
         in if length arr \<noteq> 4 then False
            else case ParseInt (arr ! 1) of
                   (second, Some e) \<Rightarrow> False
                 | (second, None) \<Rightarrow> 16 \<le> second \<and> second \<le> 31)
      else False)"

record iface =
  if_up :: bool
  if_loopback :: bool
  if_name :: string
  if_addrs :: "go_error + ip_addr list"

fun intranet_addrs :: "ip_addr list \<Rightarrow> string list" where
  "intranet_addrs [] = []"
| "intranet_addrs (Ip4 a b c d # as) =
     (if unat a = 127 \<or> \<not> IsIntranet (ip4_string a b c d) then intranet_addrs as
      else ip4_string a b c d # intranet_addrs as)"
| "intranet_addrs (_ # as) = intranet_addrs as"

text \<open>The addresses found before an error are returned with it.\<close>

fun intranet_loop :: "iface list \<Rightarrow> string list \<Rightarrow> string list \<times> go_error option" where
  "intranet_loop [] ips = (ips @ [''43.160.247.125''], None)"
| "intranet_loop (f # fs) ips =
     (if \<not> if_up f \<or> if_loopback f \<or> HasPrefix (if_name f) ''docker'' \<or> HasPrefix (if_name f) ''w-''
      then intranet_loop fs ips
      else case if_addrs f of
             Inl e \<Rightarrow> (ips, Some e)
           | Inr as \<Rightarrow> intranet_loop fs (ips @ intranet_addrs as))"

definition GetIntranetIP :: "go_error + iface list \<Rightarrow> string list \<times> go_error option" where
  "GetIntranetIP ifaces =
     (case ifaces of Inl e \<Rightarrow> ([], Some e) | Inr fs \<Rightarrow> intranet_loop fs [])"

section \<open>Options\<close>

record sopts =
  opt_Id :: string
  opt_Addr :: string
  opt_port :: int
  opt_DataDir :: string
  opt_Server :: string
  OnlinePerBatch :: int
  CreateChannelPerBatch :: int
  MsgByteSize :: int
  NewSeq :: bool

definition default_sopts :: sopts where
  "default_sopts =
     \<lparr>opt_Id = [], opt_Addr = '':8080'', opt_port = 0, opt_DataDir = ''./stressdata'', opt_Server = [],
      OnlinePerBatch = 100, CreateChannelPerBatch = 100, MsgByteSize = 512, NewSeq = True\<rparr>"

type_synonym sopt_fn = "sopts \<Rightarrow> sopts"

definition WithAddr :: "string \<Rightarrow> sopt_fn" where
  "WithAddr addr so = so\<lparr>opt_Addr := addr\<rparr>"

definition WithId :: "string \<Rightarrow> sopt_fn" where
  "WithId id1 so = so\<lparr>opt_Id := id1\<rparr>"

definition WithNewSeq :: "bool \<Rightarrow> sopt_fn" where
  "WithNewSeq seq so = so\<lparr>NewSeq := seq\<rparr>"

definition WithServer :: "string \<Rightarrow> sopt_fn" where
  "WithServer server so = so\<lparr>opt_Server := server\<rparr>"

text \<open>\<^verbatim>\<open>net.SplitHostPort\<close>, as far as its port and whether it succeeds.\<close>

fun index_of :: "char \<Rightarrow> string \<Rightarrow> nat option" where
  "index_of c [] = None"
| "index_of c (x # xs) = (if x = c then Some 0 else map_option Suc (index_of c xs))"

definition last_index_of :: "char \<Rightarrow> string \<Rightarrow> nat option" where
  "last_index_of c s = map_option (\<lambda>i. length s - 1 - i) (index_of c (rev s))"

definition SplitHostPort :: "string \<Rightarrow> string option" where
  "SplitHostPort hostport =
     (case last_index_of (CHR '':'') hostport of
        None \<Rightarrow> None
      | Some i \<Rightarrow>
          (let checked = (\<lambda>j k. if CHR ''['' \<in> set (drop j hostport) \<or> CHR '']'' \<in> set (drop k hostport)
                               then None else Some (drop (i + 1) hostport))
           in if take 1 hostport = ''['' then
                (case index_of (CHR '']'') hostport of
                   None \<Rightarrow> None
                 | Some e \<Rightarrow> if e + 1 = i then checked 1 (e + 1) else None)
              else if CHR '':'' \<in> set (take i hostport) then None else checked 0 0))"

definition parsePort :: "sopts \<Rightarrow> sopts" where
  "parsePort so =
     (if opt_Addr so \<noteq> [] then
        (case SplitHostPort (opt_Addr so) of
           None \<Rightarrow> so
         | Some port \<Rightarrow> so\<lparr>opt_port := fst (ParseInt port)\<rparr>)
      else so)"

section \<open>The data directory\<close>

text \<open>
  \<open>d_files\<close> holds the files of the data directory; files in \<open>d_denied\<close> exist or not, but cannot be
  looked at; \<open>d_full\<close> makes every write fail, \<open>d_no_mkdir\<close> the creation of the directory itself (for
  another reason than that it exists).
\<close>

record disk =
  d_files :: "string \<rightharpoonup> string"
  d_denied :: "string list"
  d_full :: bool
  d_no_mkdir :: bool

datatype read_outcome = Not_Exist | Unreadable | Content string

definition ReadFile :: "disk \<Rightarrow> string \<Rightarrow> read_outcome" where
  "ReadFile d name =
     (if name \<in> set (d_denied d) then Unreadable
      else case d_files d name of None \<Rightarrow> Not_Exist | Some s \<Rightarrow> Content s)"

definition WriteFile :: "disk \<Rightarrow> string \<Rightarrow> string \<Rightarrow> disk \<times> go_error option" where
  "WriteFile d name s =
     (if d_full d \<or> name \<in> set (d_denied d) then (d, Some (Err_External 2))
      else (d\<lparr>d_files := (d_files d)(name \<mapsto> s)\<rparr>, None))"

definition write_or_panic :: "disk \<Rightarrow> string \<Rightarrow> string \<Rightarrow> disk go" where
  "write_or_panic d name s =
     (case WriteFile d name s of (d', None) \<Rightarrow> Inr d' | (d', Some e) \<Rightarrow> Inl Explicit_Panic)"

text \<open>\<^verbatim>\<open>genId\<close>: the machine's id, made once and kept in the file \<^verbatim>\<open>id\<close>.\<close>

definition new_id :: "go_error + iface list \<Rightarrow> string \<Rightarrow> string option go" where
  "new_id ifaces uuid =
     (case GetIntranetIP ifaces of
        (ips, Some e) \<Rightarrow> Inr None
      | (ips, None) \<Rightarrow>
          (let ip = (case ips of [] \<Rightarrow> ''0.0.0.0'' | i # _ \<Rightarrow> i);
               ip = RemoveAll ip (CHR ''.'');
               suffix = GenUUID uuid
           in if length suffix < 4 \<or> length ip < 4 then Inl Slice_Bounds
              else Inr (Some (''ss'' @ drop (length ip - 4) ip @ drop (length suffix - 4) suffix))))"

definition genId :: "go_error + iface list \<Rightarrow> string \<Rightarrow> sopts \<Rightarrow> disk \<Rightarrow> (disk \<times> string) go" where
  "genId ifaces uuid so d =
     (if opt_Id so \<noteq> [] then Inr (d, opt_Id so)
      else case ReadFile d ''id'' of
        Unreadable \<Rightarrow> Inl Explicit_Panic
      | r \<Rightarrow>
          go_bind (if r = Not_Exist then write_or_panic d ''id'' [] else Inr d) (\<lambda>d1.
            case r of
              Content (c # cs) \<Rightarrow> Inr (d1, c # cs)
            | _ \<Rightarrow>
                go_bind (new_id ifaces uuid) (\<lambda>i.
                  case i of
                    None \<Rightarrow> Inr (d1, [])
                  | Some id1 \<Rightarrow> go_bind (write_or_panic d1 ''id'' id1) (\<lambda>d2. Inr (d2, id1)))))"

text \<open>\<^verbatim>\<open>nextTestSeq\<close>: the next number of a test.\<close>

definition nextTestSeq :: "disk \<Rightarrow> (disk \<times> int) go" where
  "nextTestSeq d =
     (case ReadFile d ''seq'' of
        Unreadable \<Rightarrow> Inl Explicit_Panic
      | r \<Rightarrow>
          (let data = (case r of Content s \<Rightarrow> s | _ \<Rightarrow> ''0'')
           in case ParseInt data of
                (v, Some e) \<Rightarrow> Inl Explicit_Panic
              | (v, None) \<Rightarrow>
                  (let seq = wrap64 (v + 1)
                   in go_bind (write_or_panic d ''seq'' (itoa seq)) (\<lambda>d1. Inr (d1, seq)))))"

definition readServerAddr :: "sopts \<Rightarrow> disk \<Rightarrow> string" where
  "readServerAddr so d =
     (if opt_Server so \<noteq> [] then opt_Server so
      else case ReadFile d ''server'' of Content s \<Rightarrow> s | _ \<Rightarrow> [])"

definition writeServerAddr :: "string \<Rightarrow> sopts \<Rightarrow> disk \<Rightarrow> sopts \<times> disk \<times> go_error option" where
  "writeServerAddr serverAddr so d =
     (case WriteFile d ''server'' serverAddr of
        (d1, Some e) \<Rightarrow> (so, d1, Some e)
      | (d1, None) \<Rightarrow> (so\<lparr>opt_Server := serverAddr\<rparr>, d1, None))"

text \<open>\<^verbatim>\<open>NewOptions\<close>.\<close>

definition NewServerOptions ::
    "go_error + iface list \<Rightarrow> string \<Rightarrow> sopt_fn list \<Rightarrow> disk \<Rightarrow> (disk \<times> sopts) go" where
  "NewServerOptions ifaces uuid fs d =
     (let so = parsePort (foldl (\<lambda>so f. f so) default_sopts fs)
      in if opt_DataDir so \<noteq> [] \<and> d_no_mkdir d then Inl Explicit_Panic
         else go_bind (if opt_Id so = []
                       then go_bind (genId ifaces uuid so d) (\<lambda>(d1, i). Inr (d1, so\<lparr>opt_Id := i\<rparr>))
                       else Inr (d, so))
                (\<lambda>(d1, so1). Inr (d1, so1\<lparr>opt_Server := readServerAddr so1 d1\<rparr>)))"

section \<open>Properties\<close>

lemma HasPrefix_dot:
  assumes "CHR ''.'' \<notin> set xs" and "CHR ''.'' \<notin> set p"
  shows "HasPrefix (xs @ CHR ''.'' # ys) (p @ CHR ''.'' # q) \<longleftrightarrow> xs = p \<and> HasPrefix ys q"
  unfolding HasPrefix_iff using append_sep_inj [OF assms] by auto

lemma dec_no_dot: "CHR ''.'' \<notin> set (dec n)"
  using dec_digits [of "CHR ''.''" n] by auto

lemma Split_ip4:
  "Split (ip4_string a b c d) ''.'' = [dec (unat a), dec (unat b), dec (unat c), dec (unat d)]"
  by (simp add: ip4_string_def Split_char_cons Split_char_none dec_no_dot)

lemma ParseInt_dec: "n < 256 \<Longrightarrow> ParseInt (dec n) = (int n, None)"
  using ParseInt_itoa [of "int n"] by (simp add: itoa_def)

text \<open>
  \<^verbatim>\<open>IsIntranet\<close> decides the private address ranges: a dotted quad is an intranet address
  exactly when it lies in 10.0.0.0/8, 192.168.0.0/16 or 172.16.0.0/12, or is the one public address
  the program adds.
\<close>

theorem IsIntranet_ranges:
  "IsIntranet (ip4_string a b c d) \<longleftrightarrow>
     unat a = 10 \<or> unat a = 192 \<and> unat b = 168 \<or> unat a = 172 \<and> 16 \<le> unat b \<and> unat b \<le> 31 \<or>
     unat a = 43 \<and> unat b = 160 \<and> unat c = 247 \<and> unat d = 125"
proof -
  have num: "dec 10 = ''10''" "dec 192 = ''192''" "dec 168 = ''168''" "dec 172 = ''172''" "dec 43 = ''43''"
    "dec 160 = ''160''" "dec 247 = ''247''" "dec 125 = ''125''"
    by code_simp+
  have eq: "dec n = s \<longleftrightarrow> n = m" if "dec m = s" for n m s using that dec_inj by metis
  have p10: "HasPrefix (ip4_string a b c d) ''10.'' \<longleftrightarrow> unat a = 10"
    using HasPrefix_dot [of "dec (unat a)" "''10''" _ "[]"] eq [OF num(1)]
    by (simp add: ip4_string_def dec_no_dot HasPrefix_def)
  have p172: "HasPrefix (ip4_string a b c d) ''172.'' \<longleftrightarrow> unat a = 172"
    using HasPrefix_dot [of "dec (unat a)" "''172''" _ "[]"] eq [OF num(4)]
    by (simp add: ip4_string_def dec_no_dot HasPrefix_def)
  have p192: "HasPrefix (ip4_string a b c d) ''192.168.'' \<longleftrightarrow> unat a = 192 \<and> unat b = 168"
    using HasPrefix_dot [of "dec (unat a)" "''192''" _ "''168.''"] eq [OF num(2)] eq [OF num(3)]
      HasPrefix_dot [of "dec (unat b)" "''168''" _ "[]"]
    by (simp add: ip4_string_def dec_no_dot HasPrefix_def)
  have sp: "Split s ''.'' = Split t ''.''" if "s = t" for s t using that by simp
  have pub: "ip4_string a b c d = ''43.160.247.125'' \<longleftrightarrow>
      unat a = 43 \<and> unat b = 160 \<and> unat c = 247 \<and> unat d = 125"
  proof
    assume e: "ip4_string a b c d = ''43.160.247.125''"
    have "Split ''43.160.247.125'' ''.'' = [''43'', ''160'', ''247'', ''125'']" by code_simp
    with sp [OF e] have "dec (unat a) = ''43''" "dec (unat b) = ''160''" "dec (unat c) = ''247''"
      "dec (unat d) = ''125''" by (simp_all add: Split_ip4)
    with eq num show "unat a = 43 \<and> unat b = 160 \<and> unat c = 247 \<and> unat d = 125" by metis
  qed (simp add: ip4_string_def num)
  have b: "ParseInt (dec (unat b)) = (int (unat b), None)" by (rule ParseInt_dec [OF unat_byte])
  have "IsIntranet (ip4_string a b c d) \<longleftrightarrow>
      (unat a = 43 \<and> unat b = 160 \<and> unat c = 247 \<and> unat d = 125) \<or> unat a = 10 \<or>
      (unat a = 192 \<and> unat b = 168) \<or> (unat a = 172 \<and> 16 \<le> int (unat b) \<and> int (unat b) \<le> 31)"
    unfolding IsIntranet_def p10 p172 p192 pub Split_ip4 Let_def by (simp add: b)
  moreover have "16 \<le> int (unat b) \<longleftrightarrow> 16 \<le> unat b" "int (unat b) \<le> 31 \<longleftrightarrow> unat b \<le> 31"
    by linarith+
  ultimately show ?thesis by blast
qed

text \<open>
  With the documented text form of a UUID the slices of \<^verbatim>\<open>genId\<close> are in range: a new id is \<^verbatim>\<open>ss\<close>, four
  digits of an address and four characters, and missing only when the interfaces cannot be read.
\<close>

lemma digits_of_ip4: "4 \<le> length (RemoveAll (ip4_string a b c d) (CHR ''.''))"
proof -
  have "RemoveAll (ip4_string a b c d) (CHR ''.'') = dec (unat a) @ dec (unat b) @ dec (unat c) @ dec (unat d)"
  proof -
    have "filter (\<lambda>x. x \<noteq> CHR ''.'') (dec n) = dec n" for n
      by (rule filter_True) (use dec_no_dot in blast)
    then show ?thesis by (simp add: RemoveAll_def ip4_string_def)
  qed
  moreover have "1 \<le> length (dec n)" for n by (simp add: Suc_leI)
  from this [of "unat a"] this [of "unat b"] this [of "unat c"] this [of "unat d"]
  have "4 \<le> length (dec (unat a)) + length (dec (unat b)) + length (dec (unat c)) + length (dec (unat d))"
    by linarith
  ultimately show ?thesis by (simp add: add.assoc)
qed

lemma digits_of_addrs: "ip \<in> set (intranet_addrs as) \<Longrightarrow> 4 \<le> length (RemoveAll ip (CHR ''.''))"
  by (induction as rule: intranet_addrs.induct) (auto simp: digits_of_ip4 split: if_splits)

lemma digits_of_loop:
  assumes "intranet_loop fs ips = (ips', e)" and "\<forall>ip \<in> set ips. 4 \<le> length (RemoveAll ip (CHR ''.''))"
  shows "\<forall>ip \<in> set ips'. 4 \<le> length (RemoveAll ip (CHR ''.''))"
  using assms
proof (induction fs ips rule: intranet_loop.induct)
  case (1 ips)
  then show ?case by (auto simp: RemoveAll_def)
next
  case (2 f fs ips)
  show ?case
  proof (cases "\<not> if_up f \<or> if_loopback f \<or> HasPrefix (if_name f) ''docker'' \<or> HasPrefix (if_name f) ''w-''")
    case True
    with 2 show ?thesis by simp
  next
    case False
    show ?thesis
    proof (cases "if_addrs f")
      case (Inl e1)
      with 2 False show ?thesis by auto
    next
      case (Inr as)
      have "\<forall>ip \<in> set (ips @ intranet_addrs as). 4 \<le> length (RemoveAll ip (CHR ''.''))"
        using "2.prems"(2) digits_of_addrs by auto
      with "2.IH"(2) [OF False Inr] "2.prems"(1) False Inr show ?thesis by simp
    qed
  qed
qed

lemma new_id_made:
  assumes "uuid_text uuid"
  shows "new_id ifaces uuid = Inr None \<and> snd (GetIntranetIP ifaces) \<noteq> None \<or>
    (\<exists>n s. new_id ifaces uuid = Inr (Some (''ss'' @ n @ s)) \<and> length n = 4 \<and> length s = 4)"
proof -
  obtain ips e where g: "GetIntranetIP ifaces = (ips, e)" by fastforce
  have "\<forall>ip \<in> set ips. 4 \<le> length (RemoveAll ip (CHR ''.''))"
    using g digits_of_loop [of _ "[]" ips e] by (auto simp: GetIntranetIP_def split: sum.splits)
  then have "4 \<le> length (RemoveAll (case ips of [] \<Rightarrow> ''0.0.0.0'' | i # _ \<Rightarrow> i) (CHR ''.''))"
    by (cases ips) (auto simp: RemoveAll_def)
  with g GenUUID_length [OF assms] show ?thesis
    by (cases e) (auto simp: new_id_def Let_def intro!: exI)
qed

text \<open>
  The machine's id is stable: once a start of the program has produced an id, every later start
  with the same data directory produces the same one, whatever the network and the UUID generator
  say then, and leaves the directory alone.
\<close>

theorem genId_stable:
  assumes "genId ifaces uuid so d = Inr (d', i)" and "i \<noteq> []"
  shows "genId ifaces' uuid' so d' = Inr (d', i)"
proof (cases "opt_Id so = []")
  case False
  with assms show ?thesis by (simp add: genId_def)
next
  case True
  have w: "ReadFile d2 ''id'' = Content s" if "write_or_panic d1 ''id'' s = Inr d2" for d1 d2 s
    using that by (auto simp: write_or_panic_def WriteFile_def ReadFile_def split: if_splits)
  obtain c cs where i: "i = c # cs" using assms(2) by (cases i) auto
  have "ReadFile d' ''id'' = Content i"
  proof (cases "ReadFile d ''id''")
    case Unreadable
    with assms(1) True show ?thesis by (simp add: genId_def)
  next
    case Not_Exist
    with assms True w show ?thesis by (auto simp: genId_def go_bind_Inr_conv split: option.splits)
  next
    case (Content s)
    with assms True w show ?thesis
      by (cases s) (auto simp: genId_def go_bind_Inr_conv split: option.splits)
  qed
  with True i show ?thesis by (simp add: genId_def)
qed

definition demo_disk :: disk where
  "demo_disk = \<lparr>d_files = Map.empty, d_denied = [], d_full = False, d_no_mkdir = False\<rparr>"

theorem genId_stable_witness:
  "genId (Inl Err_EOF) [] default_sopts (demo_disk\<lparr>d_files := [''id'' \<mapsto> ''ss7125beef'']\<rparr>) =
     Inr (demo_disk\<lparr>d_files := [''id'' \<mapsto> ''ss7125beef'']\<rparr>, ''ss7125beef'')"
proof -
  have "genId (Inr []) ''00c0ffee0000beef'' default_sopts demo_disk =
      Inr (demo_disk\<lparr>d_files := [''id'' \<mapsto> ''ss7125beef'']\<rparr>, ''ss7125beef'')"
    by (simp add: genId_def ReadFile_def demo_disk_def default_sopts_def write_or_panic_def
        WriteFile_def new_id_def GetIntranetIP_def RemoveAll_def GenUUID_def)
  then show ?thesis by (rule genId_stable) simp
qed

text \<open>Several tests, one after the other, each taking its number.\<close>

fun test_seqs :: "nat \<Rightarrow> disk \<Rightarrow> (disk \<times> int list) go" where
  "test_seqs 0 d = Inr (d, [])"
| "test_seqs (Suc k) d =
     go_bind (nextTestSeq d) (\<lambda>(d1, n). go_bind (test_seqs k d1) (\<lambda>(d2, ns). Inr (d2, n # ns)))"

definition seq_on_disk :: "disk \<Rightarrow> int \<Rightarrow> bool" where
  "seq_on_disk d v \<longleftrightarrow> \<not> d_full d \<and> ''seq'' \<notin> set (d_denied d) \<and>
     (d_files d ''seq'' = Some (itoa v) \<or> d_files d ''seq'' = None \<and> v = 0)"


lemma nextTestSeq_step:
  assumes "seq_on_disk d v" and "- (2 ^ 63) \<le> v" and "v + 1 < 2 ^ 63"
  obtains d' where "nextTestSeq d = Inr (d', v + 1)" and "seq_on_disk d' (v + 1)"
proof -
  have zero: "ParseInt ''0'' = (0, None)" by code_simp
  have "ParseInt (case ReadFile d ''seq'' of Content s \<Rightarrow> s | _ \<Rightarrow> ''0'') = (v, None)"
    and "ReadFile d ''seq'' \<noteq> Unreadable"
    using assms ParseInt_itoa [of v] zero by (auto simp: seq_on_disk_def ReadFile_def)
  moreover have "wrap64 (v + 1) = v + 1" by (rule wrap64_id) (use assms in simp_all)
  moreover have "write_or_panic d ''seq'' (itoa (v + 1)) =
      Inr (d\<lparr>d_files := (d_files d)(''seq'' \<mapsto> itoa (v + 1))\<rparr>)"
    using assms(1) by (simp add: write_or_panic_def WriteFile_def seq_on_disk_def)
  ultimately have "nextTestSeq d = Inr (d\<lparr>d_files := (d_files d)(''seq'' \<mapsto> itoa (v + 1))\<rparr>, v + 1)"
    by (auto simp: nextTestSeq_def Let_def split: read_outcome.splits)
  then show thesis
    by (rule that) (use assms(1) in \<open>simp add: seq_on_disk_def\<close>)
qed



end
