(* ===== verification/Server_Tasks.thy ===== *)
theory Server_Tasks
  imports Im_Api Server_Options
begin

text \<open>
  The server of a test machine, \<^verbatim>\<open>server/server.go\<close>: its list of tasks, how a test is started and
  stopped, and the handlers of \<^verbatim>\<open>server/api_stress.go\<close> that do it. A handler that panics is recovered by
  the HTTP engine, so what it had changed by then stays: results of handlers hold the new state beside
  the panic or the reply.
\<close>

section \<open>Tasks\<close>

record onlineTask =
  on_cfg :: taskCfg
  on_uids :: "string gslice"
  on_clients :: clients
  on_running :: bool
  on_finished :: bool
  on_stopped :: bool

definition newOnlineTask :: "taskCfg \<Rightarrow> onlineTask" where
  "newOnlineTask cfg =
     \<lparr>on_cfg = cfg, on_uids = nil_slice, on_clients = Map.empty, on_running = False,
      on_finished = False, on_stopped = False\<rparr>"

definition on_start :: "(nat \<Rightarrow> nat) \<Rightarrow> onlineTask \<Rightarrow> onlineTask" where
  "on_start spare t =
     t\<lparr>on_running := True, on_uids := gen_slice spare (genUid (cfg_UserPrefix (on_cfg t))) (cfg_Online (on_cfg t))\<rparr>"

text \<open>
  Stopping the clients: those that are connected are flushed, one after the other, and after a pause
  those that are connected are closed. \<open>st_order\<close> is the order the map is iterated in, \<open>st_chan\<close> the
  channels of the flushes; \<open>st_wait\<close> and \<open>st_pause\<close> are what happens to a client while its flush
  waits and during the pause; \<open>st_wreck\<close> is what a panic leaves of the clients.
\<close>

record stop_env =
  st_env :: env
  st_order :: "string list"
  st_chan :: "string \<Rightarrow> nat"
  st_wait :: "string \<Rightarrow> client \<Rightarrow> client"
  st_pause :: "string \<Rightarrow> client \<Rightarrow> client"
  st_wreck :: "clients \<Rightarrow> clients"

definition tc_FlushTimeout :: "stop_env \<Rightarrow> string \<Rightarrow> testClient \<Rightarrow> testClient go" where
  "tc_FlushTimeout se uid t =
     go_bind (FlushTimeout_start (st_env se) (10 ^ 9) (st_chan se uid) (tc_cli t)) (\<lambda>(c, r).
       Inr (case r of
              Inl err \<Rightarrow> t\<lparr>tc_cli := c\<rparr>
            | Inr ch \<Rightarrow> t\<lparr>tc_cli := fst (FlushTimeout_end ch (st_wait se uid c))\<rparr>))"

definition each_connected ::
    "(string \<Rightarrow> testClient \<Rightarrow> testClient go) \<Rightarrow> string list \<Rightarrow> clients \<Rightarrow> clients go" where
  "each_connected f order clients =
     go_each (\<lambda>uid clients.
       case clients uid of
         None \<Rightarrow> Inr clients
       | Some cli \<Rightarrow>
           if tc_isConnected cli then go_bind (f uid cli) (\<lambda>cli1. Inr (clients(uid \<mapsto> cli1)))
           else Inr clients) order clients"

definition pause_clients :: "stop_env \<Rightarrow> clients \<Rightarrow> clients" where
  "pause_clients se clients =
     (\<lambda>uid. map_option (\<lambda>t. t\<lparr>tc_cli := st_pause se uid (tc_cli t)\<rparr>) (clients uid))"

definition stopAllClient :: "stop_env \<Rightarrow> clients \<Rightarrow> clients go" where
  "stopAllClient se clients =
     go_bind (each_connected (tc_FlushTimeout se) (st_order se) clients) (\<lambda>clients1.
       each_connected (\<lambda>uid. tc_close) (st_order se) (pause_clients se clients1))"

definition on_stop :: "stop_env \<Rightarrow> onlineTask \<Rightarrow> onlineTask \<times> go_panic option" where
  "on_stop se t =
     (let t1 = t\<lparr>on_finished := False, on_running := False\<rparr>
      in case stopAllClient se (on_clients t1) of
           Inl p \<Rightarrow> (t1\<lparr>on_clients := st_wreck se (on_clients t1)\<rparr>, Some p)
         | Inr clients \<Rightarrow>
             (let t2 = t1\<lparr>on_clients := clients\<rparr>
              in if on_stopped t2 then (t2, Some Close_Of_Closed) else (t2\<lparr>on_stopped := True\<rparr>, None)))"

definition ct_start :: "channelTask \<Rightarrow> channelTask" where
  "ct_start c = c\<lparr>ct_running := True\<rparr>"

definition ct_stop :: "channelTask \<Rightarrow> channelTask \<times> go_panic option" where
  "ct_stop c =
     (let c1 = c\<lparr>ct_createFinished := False, ct_running := False\<rparr>
      in if ct_stopped c1 then (c1, Some Close_Of_Closed) else (c1\<lparr>ct_stopped := True\<rparr>, None))"

definition p2p_start ::
    "string \<Rightarrow> string list \<Rightarrow> (nat \<times> nat) list \<Rightarrow> p2pTask \<Rightarrow> p2pTask go option" where
  "p2p_start UserPrefix uids draws p = generateData UserPrefix uids draws (p\<lparr>p2p_running := True\<rparr>)"

definition p2p_stop :: "p2pTask \<Rightarrow> p2pTask \<times> go_panic option" where
  "p2p_stop p =
     (let p1 = p\<lparr>p2p_running := False\<rparr>
      in if p2p_stopped p1 then (p1, Some Close_Of_Closed) else (p1\<lparr>p2p_stopped := True\<rparr>, None))"

record statsTask =
  stt_running :: bool
  stt_stopped :: bool
  intervalSecond :: int

definition newStatsTask :: statsTask where
  "newStatsTask = \<lparr>stt_running = False, stt_stopped = False, intervalSecond = 2\<rparr>"

definition stt_start :: "statsTask \<Rightarrow> statsTask" where
  "stt_start s = s\<lparr>stt_running := True\<rparr>"

definition stt_stop :: "statsTask \<Rightarrow> statsTask \<times> go_panic option" where
  "stt_stop s =
     (let s1 = s\<lparr>stt_running := False\<rparr>
      in if stt_stopped s1 then (s1, Some Close_Of_Closed) else (s1\<lparr>stt_stopped := True\<rparr>, None))"

text \<open>The interface \<^verbatim>\<open>task\<close>: one of the four.\<close>

datatype taskType = taskOnline | taskChannel | taskP2p | taskStats

text \<open>The kinds are ordered as they are declared, which is the order of the tasks of a test.\<close>

fun kind_rank :: "taskType \<Rightarrow> nat" where
  "kind_rank taskOnline = 0"
| "kind_rank taskChannel = 1"
| "kind_rank taskP2p = 2"
| "kind_rank taskStats = 3"

instantiation taskType :: linorder
begin

definition less_eq_taskType :: "taskType \<Rightarrow> taskType \<Rightarrow> bool" where
  "less_eq_taskType a b \<longleftrightarrow> kind_rank a \<le> kind_rank b"

definition less_taskType :: "taskType \<Rightarrow> taskType \<Rightarrow> bool" where
  "less_taskType a b \<longleftrightarrow> kind_rank a < kind_rank b"

instance
proof
  fix a b :: taskType
  show "a \<le> b \<Longrightarrow> b \<le> a \<Longrightarrow> a = b" by (cases a; cases b) (simp_all add: less_eq_taskType_def)
qed (auto simp: less_eq_taskType_def less_taskType_def)

end

datatype task =
    T_Online onlineTask
  | T_Channel channelTask
  | T_P2p p2pTask
  | T_Stats statsTask

fun task_type :: "task \<Rightarrow> taskType" where
  "task_type (T_Online t) = taskOnline"
| "task_type (T_Channel c) = taskChannel"
| "task_type (T_P2p p) = taskP2p"
| "task_type (T_Stats s) = taskStats"

fun task_running :: "task \<Rightarrow> bool" where
  "task_running (T_Online t) = on_running t"
| "task_running (T_Channel c) = ct_running c"
| "task_running (T_P2p p) = p2p_running p"
| "task_running (T_Stats s) = stt_running s"

fun task_stopped :: "task \<Rightarrow> bool" where
  "task_stopped (T_Online t) = on_stopped t"
| "task_stopped (T_Channel c) = ct_stopped c"
| "task_stopped (T_P2p p) = p2p_stopped p"
| "task_stopped (T_Stats s) = stt_stopped s"

fun task_stop :: "stop_env \<Rightarrow> task \<Rightarrow> task \<times> go_panic option" where
  "task_stop se (T_Online t) = map_prod T_Online id (on_stop se t)"
| "task_stop se (T_Channel c) = map_prod T_Channel id (ct_stop c)"
| "task_stop se (T_P2p p) = map_prod T_P2p id (p2p_stop p)"
| "task_stop se (T_Stats s) = map_prod T_Stats id (stt_stop s)"

section \<open>The server\<close>

record server =
  sv_stats :: stats
  sv_opts :: sopts
  sv_disk :: disk
  sv_baseURL :: string
  sv_tasks :: "task list"
  sv_taskCfg :: "taskCfg option"
  sv_startTime :: "int option"

definition server_New :: "sopts \<Rightarrow> disk \<Rightarrow> server" where
  "server_New so d =
     \<lparr>sv_stats = zero_stats, sv_opts = so, sv_disk = d, sv_baseURL = opt_Server so, sv_tasks = [],
      sv_taskCfg = None, sv_startTime = None\<rparr>"

definition addTask :: "task \<Rightarrow> server \<Rightarrow> server" where
  "addTask t s = s\<lparr>sv_tasks := sv_tasks s @ [t]\<rparr>"

definition removeAllTask :: "server \<Rightarrow> server" where
  "removeAllTask s = s\<lparr>sv_tasks := []\<rparr>"

definition getTask :: "taskType \<Rightarrow> server \<Rightarrow> task option" where
  "getTask ty s = find (\<lambda>t. task_type t = ty) (sv_tasks s)"

definition setTaskConfig :: "taskCfg \<Rightarrow> server \<Rightarrow> server" where
  "setTaskConfig cfg s = s\<lparr>sv_taskCfg := Some cfg\<rparr>"

definition isRunning :: "server \<Rightarrow> bool" where
  "isRunning s \<longleftrightarrow> list_ex task_running (sv_tasks s)"

definition getOnlineTask :: "server \<Rightarrow> onlineTask option" where
  "getOnlineTask s = (case getTask taskOnline s of Some (T_Online t) \<Rightarrow> Some t | _ \<Rightarrow> None)"

definition getP2pTask :: "server \<Rightarrow> p2pTask option" where
  "getP2pTask s = (case getTask taskP2p s of Some (T_P2p p) \<Rightarrow> Some p | _ \<Rightarrow> None)"

definition getChannelTasks :: "server \<Rightarrow> channelTask list" where
  "getChannelTasks s = List.map_filter (\<lambda>t. case t of T_Channel c \<Rightarrow> Some c | _ \<Rightarrow> None) (sv_tasks s)"

text \<open>
  \<^verbatim>\<open>startTask\<close>. A task is added and then started; \<open>sn_draws\<close> are the draws of the private chats, and
  \<open>None\<close> says that they run out.
\<close>

record start_env =
  sn_spare :: "nat \<Rightarrow> nat"
  sn_draws :: "(nat \<times> nat) list"
  sn_now :: int

definition start_channels :: "channelCfg option list \<Rightarrow> server \<Rightarrow> server go" where
  "start_channels cfgs s =
     go_each (\<lambda>(i, ch) s.
       case ch of
         None \<Rightarrow> Inl Nil_Dereference
       | Some cfg \<Rightarrow>
           if ch_Count cfg \<le> 0 then Inr s
           else Inr (addTask (T_Channel (ct_start (newChannelTask (int i) cfg))) s)) (enumerate 0 cfgs) s"

definition start_p2p :: "start_env \<Rightarrow> taskCfg \<Rightarrow> server \<Rightarrow> server go option" where
  "start_p2p ne cfg s =
     (case cfg_P2p cfg of
        Some pc \<Rightarrow>
          if 0 < p2p_Count pc then
            (case getOnlineTask s of
               None \<Rightarrow> Some (Inl Nil_Dereference)
             | Some t \<Rightarrow>
                 map_option (\<lambda>r. go_bind r (\<lambda>p. Inr (addTask (T_P2p p) s)))
                   (p2p_start (cfg_UserPrefix cfg) (elems (on_uids t)) (sn_draws ne) (newP2pTask pc)))
          else Some (Inr s)
      | None \<Rightarrow> Some (Inr s))"

definition startTask :: "start_env \<Rightarrow> server \<Rightarrow> (server \<times> go_error option) go option" where
  "startTask ne s =
     (case sv_taskCfg s of
        None \<Rightarrow> Some (Inr (s, Some Err_Config_Nil))
      | Some cfg \<Rightarrow>
          (let s1 = removeAllTask (s\<lparr>sv_startTime := Some (sn_now ne), sv_stats := zero_stats\<rparr>);
               s2 = addTask (T_Online (on_start (sn_spare ne) (newOnlineTask cfg))) s1
           in case start_channels (cfg_Channels cfg) s2 of
                Inl p \<Rightarrow> Some (Inl p)
              | Inr s3 \<Rightarrow>
                  map_option (\<lambda>r. go_bind r (\<lambda>s4.
                      Inr (addTask (T_Stats (stt_start newStatsTask)) s4, None)))
                    (start_p2p ne cfg s3)))"

text \<open>\<^verbatim>\<open>stopTask\<close>: a panic of one task keeps the later ones from being stopped.\<close>

fun stop_each :: "('t \<Rightarrow> 't \<times> go_panic option) \<Rightarrow> 't list \<Rightarrow> 't list \<times> go_panic option" where
  "stop_each stop [] = ([], None)"
| "stop_each stop (t # ts) =
     (case stop t of
        (t1, Some p) \<Rightarrow> (t1 # ts, Some p)
      | (t1, None) \<Rightarrow> (case stop_each stop ts of (ts1, r) \<Rightarrow> (t1 # ts1, r)))"

definition stopTask :: "stop_env \<Rightarrow> server \<Rightarrow> server \<times> go_panic option" where
  "stopTask se s =
     (case stop_each (task_stop se) (sv_tasks s) of
        (ts, r) \<Rightarrow> (s\<lparr>sv_startTime := None, sv_tasks := ts\<rparr>, r))"

section \<open>The handlers\<close>

datatype reply = ResponseOK | ResponseError go_error

definition reply_code :: "reply \<Rightarrow> int" where
  "reply_code r = (case r of ResponseOK \<Rightarrow> 200 | ResponseError e \<Rightarrow> 400)"

text \<open>
  The start handler up to its look at the running tasks. \<open>req\<close> is what decoding the body gave: an
  error, a configuration, or nothing (the body \<^verbatim>\<open>null\<close>).
\<close>

fun set_types :: "channelCfg option list \<Rightarrow> channelCfg option list go" where
  "set_types [] = Inr []"
| "set_types (None # chs) = Inl Nil_Dereference"
| "set_types (Some ch # chs) =
     go_bind (set_types chs) (\<lambda>r.
       Inr (Some (if ch_Type ch = 0 then ch\<lparr>ch_Type := 2\<rparr> else ch) # r))"

definition fill_prefixes :: "string \<Rightarrow> int \<Rightarrow> taskCfg \<Rightarrow> taskCfg" where
  "fill_prefixes mid seq cfg =
     (let cfg1 = (if TrimSpace (cfg_UserPrefix cfg) = [] then cfg\<lparr>cfg_UserPrefix := user_prefix mid seq\<rparr> else cfg)
      in if TrimSpace (cfg_ChannelPrefix cfg1) = [] then cfg1\<lparr>cfg_ChannelPrefix := channel_prefix mid seq\<rparr>
         else cfg1)"

definition start_check ::
    "go_error + taskCfg option \<Rightarrow> server \<Rightarrow> server \<times> (go_panic + (reply + taskCfg))" where
  "start_check req s =
     (case req of
        Inl err \<Rightarrow> (s, Inr (Inl (ResponseError err)))
      | Inr None \<Rightarrow> (s, Inl Nil_Dereference)
      | Inr (Some cfg) \<Rightarrow>
          (case cfg_check cfg of
             Some err \<Rightarrow> (s, Inr (Inl (ResponseError err)))
           | None \<Rightarrow>
               (case (if NewSeq (sv_opts s) then nextTestSeq (sv_disk s) else Inr (sv_disk s, 0)) of
                  Inl p \<Rightarrow> (s, Inl p)
                | Inr (d, seq) \<Rightarrow>
                    (let s1 = s\<lparr>sv_disk := d\<rparr>; cfg1 = fill_prefixes (opt_Id (sv_opts s)) seq cfg
                     in case set_types (cfg_Channels cfg1) of
                          Inl p \<Rightarrow> (s1, Inl p)
                        | Inr chs \<Rightarrow>
                            (s1, Inr (if isRunning s1 then Inl (ResponseError Err_Task_Running)
                                      else Inr (cfg1\<lparr>cfg_Channels := chs\<rparr>)))))))"

text \<open>The rest of the handler; a panic in it would leave the state unknown.\<close>

definition start_launch ::
    "start_env \<Rightarrow> taskCfg \<Rightarrow> server \<Rightarrow> (server \<times> (go_panic + reply)) option" where
  "start_launch ne cfg s =
     map_option (\<lambda>r. case r of
         Inl p \<Rightarrow> (setTaskConfig cfg s, Inl p)
       | Inr (s1, Some err) \<Rightarrow> (s1, Inr (ResponseError err))
       | Inr (s1, None) \<Rightarrow> (s1, Inr ResponseOK)) (startTask ne (setTaskConfig cfg s))"

definition api_start ::
    "start_env \<Rightarrow> go_error + taskCfg option \<Rightarrow> server \<Rightarrow> (server \<times> (go_panic + reply)) option" where
  "api_start ne req s =
     (case start_check req s of
        (s1, Inl p) \<Rightarrow> Some (s1, Inl p)
      | (s1, Inr (Inl r)) \<Rightarrow> Some (s1, Inr r)
      | (s1, Inr (Inr cfg)) \<Rightarrow> start_launch ne cfg s1)"

definition stop_launch :: "stop_env \<Rightarrow> server \<Rightarrow> server \<times> (go_panic + reply)" where
  "stop_launch se s =
     (case stopTask se s of (s1, Some p) \<Rightarrow> (s1, Inl p) | (s1, None) \<Rightarrow> (s1, Inr ResponseOK))"

definition api_stop :: "stop_env \<Rightarrow> server \<Rightarrow> server \<times> (go_panic + reply)" where
  "api_stop se s =
     (if \<not> isRunning s then (s, Inr (ResponseError Err_Task_Not_Running)) else stop_launch se s)"

section \<open>The contract of a task\<close>

text \<open>
  What the server relies on: starting makes a task run, stopping ends it and closes its channel once;
  when it panics, the channel stays as it is. A task that is not \<open>fragile\<close> panics only when its
  channel is closed already.
\<close>

locale task_contract =
  fixes running :: "'t \<Rightarrow> bool" and closed :: "'t \<Rightarrow> bool" and fragile :: "'t \<Rightarrow> bool"
    and stop :: "'t \<Rightarrow> 't \<times> go_panic option"
  assumes stop_ends: "\<not> running (fst (stop t))"
    and stop_closes: "snd (stop t) = None \<Longrightarrow> \<not> closed t \<and> closed (fst (stop t))"
    and stop_panics: "snd (stop t) = Some p \<Longrightarrow> closed (fst (stop t)) = closed t"
    and stop_robust: "\<not> fragile t \<Longrightarrow> \<not> closed t \<Longrightarrow> snd (stop t) = None"
begin

lemma stop_each_done:
  "snd (stop_each stop ts) = None \<Longrightarrow>
     list_all (\<lambda>t. \<not> closed t) ts \<and> list_all (\<lambda>t. \<not> running t \<and> closed t) (fst (stop_each stop ts))"
proof (induction ts)
  case (Cons t ts)
  then show ?case
    using stop_ends [of t] stop_closes [of t]
    by (cases "stop t"; cases "snd (stop t)"; cases "stop_each stop ts") auto
qed simp

lemma stop_each_length: "length (fst (stop_each stop ts)) = length ts"
  by (induction ts) (auto split: prod.splits option.splits)

lemma stop_each_robust:
  "list_all (\<lambda>t. \<not> fragile t \<and> \<not> closed t) ts \<Longrightarrow> snd (stop_each stop ts) = None"
proof (induction ts)
  case (Cons t ts)
  then show ?case
    using stop_robust [of t] by (cases "stop t"; cases "stop_each stop ts") auto
qed simp

text \<open>When only the first task is fragile, a panic stops nothing but that task.\<close>

lemma stop_each_first_panics:
  assumes "snd (stop_each stop (t # ts)) = Some p" and "list_all (\<lambda>t. \<not> closed t) (t # ts)"
    and "list_all (\<lambda>t. \<not> fragile t) ts"
  shows "snd (stop t) = Some p \<and> fst (stop_each stop (t # ts)) = fst (stop t) # ts \<and>
    list_all (\<lambda>t. \<not> closed t) (fst (stop_each stop (t # ts)))"
proof -
  have "snd (stop_each stop ts) = None"
    using assms(2,3) by (intro stop_each_robust) (simp add: list_all_iff)
  then show ?thesis
    using assms stop_panics [of t]
    by (cases "stop t"; cases "snd (stop t)"; cases "stop_each stop ts") auto
qed

text \<open>Stopping again what has been stopped panics.\<close>

lemma stop_each_twice:
  assumes "ts \<noteq> []" and "list_all closed ts"
  shows "snd (stop_each stop ts) \<noteq> None"
proof
  assume "snd (stop_each stop ts) = None"
  then have "list_all (\<lambda>t. \<not> closed t) ts" using stop_each_done by blast
  with assms show False by (cases ts) auto
qed

end

interpretation online_task: task_contract on_running on_stopped "\<lambda>_. True" "on_stop se" for se
  by unfold_locales (auto simp: on_stop_def Let_def split: sum.splits if_splits)

interpretation channel_task: task_contract ct_running ct_stopped "\<lambda>_. False" ct_stop
  by unfold_locales (auto simp: ct_stop_def Let_def split: if_splits)

interpretation p2p_task: task_contract p2p_running p2p_stopped "\<lambda>_. False" p2p_stop
  by unfold_locales (auto simp: p2p_stop_def Let_def split: if_splits)

interpretation stats_task: task_contract stt_running stt_stopped "\<lambda>_. False" stt_stop
  by unfold_locales (auto simp: stt_stop_def Let_def split: if_splits)

definition is_online :: "task \<Rightarrow> bool" where
  "is_online t \<longleftrightarrow> task_type t = taskOnline"

interpretation any_task: task_contract task_running task_stopped is_online "task_stop se" for se
proof
  fix t :: task
  show "\<not> task_running (fst (task_stop se t))"
    using online_task.stop_ends channel_task.stop_ends p2p_task.stop_ends stats_task.stop_ends
    by (cases t) simp_all
  show "\<not> task_stopped t \<and> task_stopped (fst (task_stop se t))" if "snd (task_stop se t) = None"
    using that online_task.stop_closes channel_task.stop_closes p2p_task.stop_closes stats_task.stop_closes
    by (cases t) simp_all
  show "task_stopped (fst (task_stop se t)) = task_stopped t" if "snd (task_stop se t) = Some p" for p
    using that online_task.stop_panics channel_task.stop_panics p2p_task.stop_panics stats_task.stop_panics
    by (cases t) auto
  show "snd (task_stop se t) = None" if "\<not> is_online t" "\<not> task_stopped t"
    using that channel_task.stop_robust p2p_task.stop_robust stats_task.stop_robust
    by (cases t) (simp_all add: is_online_def)
qed

end
