(* ===== verification/Server_Lifecycle.thy ===== *)
theory Server_Lifecycle
  imports Server_Tasks
begin

text \<open>
  The life of the server: its handlers and what the tasks do in between, as a step relation, and what
  holds in every state they reach when the handlers run one after the other; and what two handlers
  that overlap do.
\<close>

section \<open>Steps\<close>

text \<open>The clients belong to the first online task.\<close>

fun put_clients :: "clients \<Rightarrow> task list \<Rightarrow> task list" where
  "put_clients cl [] = []"
| "put_clients cl (T_Online t # ts) = T_Online (t\<lparr>on_clients := cl\<rparr>) # ts"
| "put_clients cl (t # ts) = t # put_clients cl ts"

text \<open>
  Everything that happens to clients and statistics outside the tasks' own sending (connecting,
  receiving, counting) is one rule, for any outcome.
\<close>

inductive server_step :: "server \<Rightarrow> server \<Rightarrow> bool" where
  start_handler: "api_start ne req s = Some (s', r) \<Longrightarrow> server_step s s'"
| stop_handler: "api_stop se s = (s', r) \<Longrightarrow> server_step s s'"
| traffic: "server_step s (s\<lparr>sv_tasks := put_clients cl (sv_tasks s), sv_stats := st\<rparr>)"
| online_finished: "i < length (sv_tasks s) \<Longrightarrow> sv_tasks s ! i = T_Online t \<Longrightarrow>
    server_step s (s\<lparr>sv_tasks := (sv_tasks s)[i := T_Online (t\<lparr>on_finished := True\<rparr>)]\<rparr>)"
| channel_ids: "i < length (sv_tasks s) \<Longrightarrow> sv_tasks s ! i = T_Channel c \<Longrightarrow>
    server_step s (s\<lparr>sv_tasks := (sv_tasks s)[i := T_Channel (c\<lparr>ct_channelIds := ids\<rparr>)]\<rparr>)"
| channel_create: "i < length (sv_tasks s) \<Longrightarrow> sv_tasks s ! i = T_Channel c \<Longrightarrow>
    createChannelWithIds create run pre Online uids ids c = Inr c' \<Longrightarrow>
    server_step s (s\<lparr>sv_tasks := (sv_tasks s)[i := T_Channel c']\<rparr>)"
| channel_finished: "i < length (sv_tasks s) \<Longrightarrow> sv_tasks s ! i = T_Channel c \<Longrightarrow>
    server_step s (s\<lparr>sv_tasks := (sv_tasks s)[i := T_Channel (c\<lparr>ct_createFinished := True\<rparr>)]\<rparr>)"
| channel_send: "i < length (sv_tasks s) \<Longrightarrow> sv_tasks s ! i = T_Channel c \<Longrightarrow> getOnlineTask s = Some t \<Longrightarrow>
    ch_willSendMsg E run run_at run2 inp inp2 (on_finished t) (c, on_clients t) = Inr (c', cl) \<Longrightarrow>
    server_step s (s\<lparr>sv_tasks := put_clients cl ((sv_tasks s)[i := T_Channel c'])\<rparr>)"
| p2p_send: "i < length (sv_tasks s) \<Longrightarrow> sv_tasks s ! i = T_P2p p \<Longrightarrow> getOnlineTask s = Some t \<Longrightarrow>
    p2p_willSendMsg E prun inp inp2 (on_finished t) (p, on_clients t) = Inr (p', cl) \<Longrightarrow>
    server_step s (s\<lparr>sv_tasks := put_clients cl ((sv_tasks s)[i := T_P2p p'])\<rparr>)"

inductive server_reach :: "server \<Rightarrow> bool" where
  boot: "server_reach (server_New so d)"
| step: "server_reach s \<Longrightarrow> server_step s s' \<Longrightarrow> server_reach s'"

section \<open>What a start does\<close>

definition channels_of :: "nat \<Rightarrow> channelCfg option list \<Rightarrow> task list" where
  "channels_of n cfgs =
     List.map_filter (\<lambda>(i, ch). case ch of
         None \<Rightarrow> None
       | Some cfg \<Rightarrow> if ch_Count cfg \<le> 0 then None
                      else Some (T_Channel (ct_start (newChannelTask (int i) cfg)))) (enumerate n cfgs)"

lemma channels_of_simps:
  "channels_of n [] = []"
  "channels_of n (Some cfg # cfgs) =
     (if ch_Count cfg \<le> 0 then [] else [T_Channel (ct_start (newChannelTask (int n) cfg))]) @
     channels_of (Suc n) cfgs"
  by (simp_all add: channels_of_def map_filter_simps)

lemma start_channels_from:
  "None \<notin> set cfgs \<Longrightarrow>
   go_each (\<lambda>(i, ch) s.
       case ch of
         None \<Rightarrow> Inl Nil_Dereference
       | Some cfg \<Rightarrow>
           if ch_Count cfg \<le> 0 then Inr s
           else Inr (addTask (T_Channel (ct_start (newChannelTask (int i) cfg))) s)) (enumerate n cfgs) s =
   Inr (s\<lparr>sv_tasks := sv_tasks s @ channels_of n cfgs\<rparr>)"
proof (induction cfgs arbitrary: n s)
  case Nil
  show ?case by (simp add: channels_of_simps)
next
  case (Cons ch cfgs)
  then obtain cfg where "ch = Some cfg" by (cases ch) auto
  with Cons show ?case by (simp add: channels_of_simps addTask_def)
qed

lemma start_channels_eq:
  "None \<notin> set cfgs \<Longrightarrow> start_channels cfgs s = Inr (s\<lparr>sv_tasks := sv_tasks s @ channels_of 0 cfgs\<rparr>)"
  using start_channels_from [of cfgs 0 s] by (simp add: start_channels_def)

lemma generateRandomPairs_no_panic:
  assumes "0 < k"
  shows "generateRandomPairs users k draws \<noteq> Some (Inl p)"
proof (cases "k \<le> int (card (index_pairs (length users)))")
  case False
  then show ?thesis by (simp add: generateRandomPairs_def max_pairs)
next
  case True
  with assms have "0 < length users" by (cases users) (auto simp: card_index_pairs)
  with random_pairs_outcome [of users k draws] assms True show ?thesis by (auto split: if_splits)
qed

lemma generateData_no_panic:
  assumes "0 < p2p_Count (p2p_cfg p)"
  shows "generateData pre uids draws p \<noteq> Some (Inl q)"
  using generateRandomPairs_no_panic [OF assms, of "fill_users pre uids m" draws q for m]
  by (auto simp: generateData_def go_simps split: sum.splits)

lemma generateData_flags:
  assumes "generateData pre uids draws p = Some (Inr p')"
  shows "p' = p\<lparr>p2p_pairs := p2p_pairs p'\<rparr>"
proof (cases "minUsersForPairs (p2p_Count (p2p_cfg p))")
  case (Inl e)
  with assms show ?thesis by (simp add: generateData_def)
next
  case (Inr m)
  with assms obtain z :: "(go_error + (string \<times> string) list) go" where "go_bind z (\<lambda>res. Inr (case res of
      Inl err \<Rightarrow> p\<lparr>p2p_pairs := []\<rparr> | Inr pairs \<Rightarrow> p\<lparr>p2p_pairs := pairs\<rparr>)) = (Inr p' :: p2pTask go)"
    by (auto simp: generateData_def)
  then obtain res :: "go_error + (string \<times> string) list" where "p' = (case res of
      Inl err \<Rightarrow> p\<lparr>p2p_pairs := []\<rparr> | Inr pairs \<Rightarrow> p\<lparr>p2p_pairs := pairs\<rparr>)" by (auto elim: go_bindE)
  then show ?thesis by (cases res) simp_all
qed

text \<open>The tasks of a test that has just been started.\<close>

definition fresh_tasks :: "start_env \<Rightarrow> taskCfg \<Rightarrow> task list \<Rightarrow> bool" where
  "fresh_tasks ne cfg ts \<longleftrightarrow>
     (let onl = on_start (sn_spare ne) (newOnlineTask cfg)
      in \<exists>p2p. ts = T_Online onl # channels_of 0 (cfg_Channels cfg) @ p2p @ [T_Stats (stt_start newStatsTask)] \<and>
           (case cfg_P2p cfg of
              Some pc \<Rightarrow>
                (if 0 < p2p_Count pc
                 then \<exists>p. p2p = [T_P2p p] \<and>
                      p2p_start (cfg_UserPrefix cfg) (elems (on_uids onl)) (sn_draws ne) (newP2pTask pc) = Some (Inr p)
                 else p2p = [])
            | None \<Rightarrow> p2p = []))"

lemma startTask_fresh:
  assumes "sv_taskCfg s = Some cfg" and "None \<notin> set (cfg_Channels cfg)" and "startTask ne s = Some r"
  shows "\<exists>ts. fresh_tasks ne cfg ts \<and>
    r = Inr (s\<lparr>sv_startTime := Some (sn_now ne), sv_stats := zero_stats, sv_tasks := ts\<rparr>, None)"
proof -
  let ?onl = "on_start (sn_spare ne) (newOnlineTask cfg)"
  let ?s = "\<lambda>ts. s\<lparr>sv_startTime := Some (sn_now ne), sv_stats := zero_stats, sv_tasks := ts\<rparr>"
  let ?ts = "T_Online ?onl # channels_of 0 (cfg_Channels cfg)"
  have onl: "getOnlineTask (?s ?ts) = Some ?onl" by (simp add: getOnlineTask_def getTask_def)
  from assms have r: "map_option (\<lambda>r. go_bind r (\<lambda>s4. Inr (addTask (T_Stats (stt_start newStatsTask)) s4, None)))
      (start_p2p ne cfg (?s ?ts)) = Some r"
    by (simp add: startTask_def Let_def start_channels_eq addTask_def removeAllTask_def)
  show ?thesis
  proof (cases "\<exists>pc. cfg_P2p cfg = Some pc \<and> 0 < p2p_Count pc")
    case False
    then have "start_p2p ne cfg (?s ?ts) = Some (Inr (?s ?ts))"
      by (auto simp: start_p2p_def split: option.splits)
    with r have "r = Inr (?s (?ts @ [T_Stats (stt_start newStatsTask)]), None)" by (simp add: addTask_def)
    with False show ?thesis
      by (intro exI [of _ "?ts @ [T_Stats (stt_start newStatsTask)]"])
        (auto simp: fresh_tasks_def Let_def split: option.splits)
  next
    case True
    then obtain pc where pc: "cfg_P2p cfg = Some pc" "0 < p2p_Count pc" by blast
    define G where "G = p2p_start (cfg_UserPrefix cfg) (elems (on_uids ?onl)) (sn_draws ne) (newP2pTask pc)"
    have "G \<noteq> Some (Inl q)" for q
      unfolding G_def p2p_start_def using pc(2) by (intro generateData_no_panic) (simp add: newP2pTask_def)
    moreover have st: "start_p2p ne cfg (?s ?ts) = map_option (\<lambda>r. go_bind r (\<lambda>p. Inr (addTask (T_P2p p) (?s ?ts)))) G"
      using pc onl by (simp add: start_p2p_def G_def)
    ultimately obtain p where p: "G = Some (Inr p)"
      using r by (cases G) (auto, metis sum.exhaust)
    with r st have "r = Inr (?s (?ts @ [T_P2p p] @ [T_Stats (stt_start newStatsTask)]), None)"
      by (simp add: addTask_def)
    with p pc show ?thesis
      by (intro exI [of _ "?ts @ [T_P2p p] @ [T_Stats (stt_start newStatsTask)]"])
        (simp add: fresh_tasks_def Let_def G_def)
  qed
qed

lemma set_types_no_nil: "set_types chs = Inr chs' \<Longrightarrow> None \<notin> set chs'"
  by (induction chs arbitrary: chs' rule: set_types.induct) (auto simp: go_simps)

lemma start_check_state: "start_check req s = (s1, r) \<Longrightarrow> s1 = s\<lparr>sv_disk := sv_disk s1\<rparr>"
  by (auto simp: start_check_def Let_def split: sum.splits option.splits prod.splits)

lemma start_check_passed:
  assumes "start_check req s = (s1, Inr (Inr cfg))"
  shows "\<not> isRunning s1 \<and> None \<notin> set (cfg_Channels cfg)"
  using assms
  by (auto simp: start_check_def Let_def split: sum.splits option.splits prod.splits if_splits dest: set_types_no_nil)

lemma start_check_not_ok: "start_check req s \<noteq> (s1, Inr (Inl ResponseOK))"
  by (auto simp: start_check_def Let_def split: sum.splits option.splits prod.splits if_splits)

lemma start_launch_fresh:
  assumes "None \<notin> set (cfg_Channels cfg)" and "start_launch ne cfg s = Some (s', r)"
  shows "r = Inr ResponseOK \<and> (\<exists>ts. fresh_tasks ne cfg ts \<and>
    s' = s\<lparr>sv_taskCfg := Some cfg, sv_startTime := Some (sn_now ne), sv_stats := zero_stats, sv_tasks := ts\<rparr>)"
proof -
  obtain q where q: "startTask ne (setTaskConfig cfg s) = Some q"
    using assms(2) by (auto simp: start_launch_def)
  have "sv_taskCfg (setTaskConfig cfg s) = Some cfg" by (simp add: setTaskConfig_def)
  from startTask_fresh [OF this assms(1) q] show ?thesis
    using assms(2) q by (auto simp: start_launch_def setTaskConfig_def)
qed

lemma fresh_tasks_up:
  assumes "fresh_tasks ne cfg ts"
  shows "\<exists>t rest. ts = T_Online t # rest \<and> list_all (\<lambda>t. \<not> is_online t) rest \<and>
    list_all (\<lambda>t. task_running t \<and> \<not> task_stopped t) ts"
proof -
  have ch: "list_all (\<lambda>t. \<not> is_online t \<and> task_running t \<and> \<not> task_stopped t) (channels_of n cfgs)" for n cfgs
    by (auto simp: channels_of_def List.map_filter_def list_all_iff is_online_def ct_start_def newChannelTask_def
        split: option.splits if_splits)
  have p2p: "p2p_running p \<and> \<not> p2p_stopped p"
    if "p2p_start pre uids draws (newP2pTask pc) = Some (Inr p)" for pre uids draws pc p
    using generateData_flags [OF that [unfolded p2p_start_def]]
    by (metis (no_types, lifting) newP2pTask_def p2pTask.select_convs(1,4) p2pTask.surjective p2pTask.update_convs(1,3))
  let ?ok = "\<lambda>t. \<not> is_online t \<and> task_running t \<and> \<not> task_stopped t"
  let ?onl = "on_start (sn_spare ne) (newOnlineTask cfg)"
  obtain p2p where ts: "ts = T_Online ?onl # channels_of 0 (cfg_Channels cfg) @ p2p @ [T_Stats (stt_start newStatsTask)]"
    and "list_all ?ok p2p"
  proof -
    from assms obtain p2p where
      eq: "ts = T_Online ?onl # channels_of 0 (cfg_Channels cfg) @ p2p @ [T_Stats (stt_start newStatsTask)]"
      and c: "case cfg_P2p cfg of
          Some pc \<Rightarrow> (if 0 < p2p_Count pc
             then \<exists>p. p2p = [T_P2p p] \<and>
               p2p_start (cfg_UserPrefix cfg) (elems (on_uids ?onl)) (sn_draws ne) (newP2pTask pc) = Some (Inr p)
             else p2p = [])
        | None \<Rightarrow> p2p = []"
      unfolding fresh_tasks_def Let_def by blast
    have "list_all ?ok p2p"
    proof (cases "cfg_P2p cfg")
      case (Some pc)
      with c p2p show ?thesis by (cases "0 < p2p_Count pc") (auto simp: is_online_def)
    qed (use c in simp)
    with eq show ?thesis by (rule that)
  qed
  moreover have "?ok (T_Stats (stt_start newStatsTask))"
    by (simp add: is_online_def stt_start_def newStatsTask_def)
  moreover have "task_running (T_Online ?onl) \<and> \<not> task_stopped (T_Online ?onl)"
    by (simp add: on_start_def newOnlineTask_def)
  ultimately show ?thesis
    using ch [of 0 "cfg_Channels cfg"] by (auto simp: list_all_iff simp del: task_running.simps task_stopped.simps)
qed

section \<open>The invariant\<close>

definition same_task :: "task \<Rightarrow> task \<Rightarrow> bool" where
  "same_task t t' \<longleftrightarrow>
     task_type t' = task_type t \<and> task_running t' = task_running t \<and> task_stopped t' = task_stopped t"

definition server_inv :: "server \<Rightarrow> bool" where
  "server_inv s \<longleftrightarrow>
     (sv_tasks s = [] \<or> (\<exists>t ts. sv_tasks s = T_Online t # ts \<and> list_all (\<lambda>t. \<not> is_online t) ts)) \<and>
     (list_all (\<lambda>t. \<not> task_stopped t) (sv_tasks s) \<or>
      list_all (\<lambda>t. \<not> task_running t \<and> task_stopped t) (sv_tasks s))"

lemma same_task_refl [simp]: "same_task t t"
  by (simp add: same_task_def)

lemma same_tasks_refl [simp]: "list_all2 same_task ts ts"
  by (simp add: list_all2_refl)

lemma same_tasks_list_all:
  assumes "list_all2 same_task ts ts'" and "\<And>t t'. same_task t t' \<Longrightarrow> P t = P t'"
  shows "list_all P ts' = list_all P ts"
  using assms(1) by (induction rule: list_all2_induct) (auto dest: assms(2))

lemma server_inv_same:
  assumes "server_inv s" and "list_all2 same_task (sv_tasks s) (sv_tasks s')"
  shows "server_inv s'"
proof -
  have all: "list_all (\<lambda>t. \<not> task_stopped t) (sv_tasks s') = list_all (\<lambda>t. \<not> task_stopped t) (sv_tasks s)"
    "list_all (\<lambda>t. \<not> task_running t \<and> task_stopped t) (sv_tasks s') =
      list_all (\<lambda>t. \<not> task_running t \<and> task_stopped t) (sv_tasks s)"
    by (rule same_tasks_list_all [OF assms(2)]; simp add: same_task_def)+
  have "sv_tasks s' = [] \<or> (\<exists>t ts. sv_tasks s' = T_Online t # ts \<and> list_all (\<lambda>t. \<not> is_online t) ts)"
  proof (cases "sv_tasks s")
    case Nil
    with assms(2) show ?thesis by simp
  next
    case (Cons t ts)
    with assms obtain o1 where t: "t = T_Online o1" "list_all (\<lambda>t. \<not> is_online t) ts"
      by (auto simp: server_inv_def)
    from assms(2) Cons obtain t' ts' where s': "sv_tasks s' = t' # ts'" "same_task t t'" "list_all2 same_task ts ts'"
      by (auto simp: list_all2_Cons1)
    have "list_all (\<lambda>t. \<not> is_online t) ts'"
      using same_tasks_list_all [OF s'(3), of "\<lambda>t. \<not> is_online t"] t(2)
      by (simp add: same_task_def is_online_def)
    moreover have "\<exists>o2. t' = T_Online o2" using s'(2) t(1) by (cases t') (auto simp: same_task_def)
    ultimately show ?thesis using s'(1) by auto
  qed
  with all assms(1) show ?thesis by (simp add: server_inv_def)
qed

lemma same_tasks_update:
  "i < length ts \<Longrightarrow> same_task (ts ! i) t \<Longrightarrow> list_all2 same_task ts (ts[i := t])"
  by (simp add: list_all2_conv_all_nth nth_list_update)

lemma same_tasks_put: "list_all2 same_task ts (put_clients cl ts)"
  by (induction cl ts rule: put_clients.induct) (simp_all, simp add: same_task_def)

lemma same_tasks_trans: "list_all2 same_task a b \<Longrightarrow> list_all2 same_task b c \<Longrightarrow> list_all2 same_task a c"
  by (rule list_all2_trans [where ?P1.0 = same_task and ?P2.0 = same_task]) (simp_all add: same_task_def)

subsection \<open>What the tasks do keeps their flags\<close>

lemma createChannelWithIds_flags:
  assumes "createChannelWithIds create run pre Online uids ids c = Inr c'"
  shows "ct_running c' = ct_running c \<and> ct_stopped c' = ct_stopped c"
proof -
  from assms obtain c1 where c1: "with_subscribers pre Online uids c = Inr c1"
    and each: "go_each (create_one create) (takeWhile run ids) c1 = Inr c'"
    unfolding createChannelWithIds_def by (rule go_bindE)
  have "ct_running c1 = ct_running c \<and> ct_stopped c1 = ct_stopped c"
    using c1 by (auto simp: with_subscribers_def elim!: go_bindE split: if_splits prod.splits)
  then show ?thesis
    by (rule go_each_inv [OF each, where P = "\<lambda>x. ct_running x = ct_running c \<and> ct_stopped x = ct_stopped c"])
      (auto simp: create_one_def elim!: go_bindE split: option.splits)
qed

lemma ch_willSendMsg_flags:
  assumes "ch_willSendMsg E run run_at run2 inp inp2 fin (c, cl) = Inr (c', cl')"
  shows "ct_running c' = ct_running c \<and> ct_stopped c' = ct_stopped c"
proof -
  have "c' = c\<lparr>ct_stats := ct_stats c'\<rparr>"
    using ch_frame.willSendMsg [OF assms] by (simp add: counts_grow_def)
  then show ?thesis by (metis channelTask.select_convs(1,6) channelTask.surjective channelTask.update_convs(5))
qed

lemma p2p_willSendMsg_flags:
  assumes "p2p_willSendMsg E run inp inp2 fin (p, cl) = Inr (p', cl')"
  shows "p2p_running p' = p2p_running p \<and> p2p_stopped p' = p2p_stopped p"
  using assms by (auto simp: p2p_willSendMsg_def elim!: go_bindE split: if_splits prod.splits)

subsection \<open>The handlers keep the invariant\<close>

lemma api_start_cases:
  assumes "api_start ne req s = Some (s', r)"
  shows "(r \<noteq> Inr ResponseOK \<and> s' = s\<lparr>sv_disk := sv_disk s'\<rparr>) \<or>
    (\<exists>d cfg ts. r = Inr ResponseOK \<and> \<not> isRunning s \<and> start_check req s = (s\<lparr>sv_disk := d\<rparr>, Inr (Inr cfg)) \<and>
       fresh_tasks ne cfg ts \<and>
       s' = s\<lparr>sv_disk := d, sv_taskCfg := Some cfg, sv_startTime := Some (sn_now ne), sv_stats := zero_stats,
              sv_tasks := ts\<rparr>)"
proof -
  obtain s1 q where c: "start_check req s = (s1, q)" by fastforce
  have s1: "s1 = s\<lparr>sv_disk := sv_disk s1\<rparr>" by (rule start_check_state [OF c])
  show ?thesis
  proof (cases "\<exists>cfg. q = Inr (Inr cfg)")
    case False
    then have "s' = s1 \<and> r \<noteq> Inr ResponseOK"
      using assms c start_check_not_ok [of req s s1]
      by (auto simp: api_start_def split: sum.splits)
    with s1 show ?thesis by blast
  next
    case True
    then obtain cfg where q: "q = Inr (Inr cfg)" by blast
    then have run: "\<not> isRunning s1" "None \<notin> set (cfg_Channels cfg)"
      using start_check_passed c by blast+
    have "start_launch ne cfg s1 = Some (s', r)" using assms c q by (simp add: api_start_def)
    from start_launch_fresh [OF run(2) this] obtain ts where ts: "r = Inr ResponseOK" "fresh_tasks ne cfg ts"
      "s' = s1\<lparr>sv_taskCfg := Some cfg, sv_startTime := Some (sn_now ne), sv_stats := zero_stats, sv_tasks := ts\<rparr>"
      by blast
    have "isRunning s1 = isRunning s" by (subst s1) (simp add: isRunning_def)
    with run(1) ts c q s1 show ?thesis
      by (intro disjI2 exI [of _ "sv_disk s1"] exI [of _ cfg] exI [of _ ts])
        (metis server.surjective server.update_convs(3,5,6,7) server.update_convs(1))
  qed
qed

lemma server_inv_start:
  assumes "server_inv s" and "api_start ne req s = Some (s', r)"
  shows "server_inv s'"
  using api_start_cases [OF assms(2)]
proof (elim disjE exE conjE)
  assume "s' = s\<lparr>sv_disk := sv_disk s'\<rparr>"
  then have "sv_tasks s' = sv_tasks s" by (drule_tac arg_cong [where f = sv_tasks]) simp
  then show ?thesis using assms(1) by (simp add: server_inv_def)
next
  fix d cfg ts
  assume f: "fresh_tasks ne cfg ts" and "s' = s\<lparr>sv_disk := d, sv_taskCfg := Some cfg,
    sv_startTime := Some (sn_now ne), sv_stats := zero_stats, sv_tasks := ts\<rparr>"
  then have "sv_tasks s' = ts" by simp
  with fresh_tasks_up [OF f] show ?thesis
    by (auto simp: server_inv_def list_all_iff)
qed

lemma stop_each_types: "map task_type (fst (stop_each (task_stop se) ts)) = map task_type ts"
proof (induction ts)
  case (Cons t ts)
  have "task_type (fst (task_stop se t)) = task_type t" by (cases t) simp_all
  with Cons show ?case
    by (cases "task_stop se t"; cases "snd (task_stop se t)"; cases "stop_each (task_stop se) ts") auto
qed simp

lemma not_online_types: "list_all (\<lambda>t. \<not> is_online t) ts \<longleftrightarrow> taskOnline \<notin> set (map task_type ts)"
  by (induction ts) (auto simp: is_online_def)

lemma stop_launch_running:
  assumes "server_inv s" and "isRunning s" and "stop_launch se s = (s', r)"
  shows "server_inv s' \<and>
    (case r of
       Inl p \<Rightarrow> \<exists>t ts. sv_tasks s = T_Online t # ts \<and> stopAllClient se (on_clients t) = Inl p
     | Inr rep \<Rightarrow> rep = ResponseOK \<and> list_all (\<lambda>t. \<not> task_running t \<and> task_stopped t) (sv_tasks s'))"
proof -
  obtain t ts where s: "sv_tasks s = T_Online t # ts" and rest: "list_all (\<lambda>t. \<not> is_online t) ts"
    and open_all: "list_all (\<lambda>t. \<not> task_stopped t) (T_Online t # ts)"
    using assms(1,2) by (auto simp: server_inv_def isRunning_def list_ex_iff list_all_iff)
  let ?r = "stop_each (task_stop se) (T_Online t # ts)"
  have s': "sv_tasks s' = fst ?r" and r: "r = (case snd ?r of None \<Rightarrow> Inr ResponseOK | Some p \<Rightarrow> Inl p)"
    using assms(3) s
    by (auto simp: stop_launch_def stopTask_def simp del: stop_each.simps split: prod.splits option.splits)
  from stop_each_types [of se "T_Online t # ts"] obtain o1 ts1 where shape: "fst ?r = T_Online o1 # ts1"
    and ts1: "map task_type ts1 = map task_type ts"
    by (auto simp: map_eq_Cons_conv simp del: stop_each.simps) (metis task.exhaust task_type.simps taskType.distinct)
  have ts1_rest: "list_all (\<lambda>t. \<not> is_online t) ts1"
    using rest ts1 not_online_types [of ts] not_online_types [of ts1] by simp
  show ?thesis
  proof (cases "snd ?r")
    case None
    then have done_all: "list_all (\<lambda>t. \<not> task_running t \<and> task_stopped t) (fst ?r)"
      using any_task.stop_each_done by blast
    with None r s' shape ts1_rest show ?thesis
      unfolding server_inv_def by auto
  next
    case (Some p)
    note F = any_task.stop_each_first_panics [OF Some open_all rest]
    then have "snd (on_stop se t) = Some p" by simp
    moreover have "\<not> on_stopped t" using open_all by simp
    ultimately have "stopAllClient se (on_clients t) = Inl p"
      by (auto simp: on_stop_def Let_def split: sum.splits if_splits)
    with F Some r s s' shape ts1_rest show ?thesis
      unfolding server_inv_def by auto
  qed
qed

lemma server_inv_stop:
  assumes "server_inv s" and "api_stop se s = (s', r)"
  shows "server_inv s'"
  using assms stop_launch_running by (cases "isRunning s") (auto simp: api_stop_def)

text \<open>A step is a handler, or leaves the kinds, the flags and the configuration of the tasks alone.\<close>

definition quiet :: "server \<Rightarrow> server \<Rightarrow> bool" where
  "quiet s s' \<longleftrightarrow> sv_taskCfg s' = sv_taskCfg s \<and> list_all2 same_task (sv_tasks s) (sv_tasks s')"

lemma quiet_update:
  "i < length (sv_tasks s) \<Longrightarrow> same_task (sv_tasks s ! i) t \<Longrightarrow> quiet s (s\<lparr>sv_tasks := (sv_tasks s)[i := t]\<rparr>)"
  by (simp add: quiet_def same_tasks_update)

lemma quiet_update_put:
  "i < length (sv_tasks s) \<Longrightarrow> same_task (sv_tasks s ! i) t \<Longrightarrow>
   quiet s (s\<lparr>sv_tasks := put_clients cl ((sv_tasks s)[i := t])\<rparr>)"
  by (simp add: quiet_def same_tasks_trans [OF same_tasks_update same_tasks_put])

lemma server_step_quiet:
  assumes "server_step s s'"
  shows "(\<exists>ne req r. api_start ne req s = Some (s', r)) \<or> (\<exists>se r. api_stop se s = (s', r)) \<or> quiet s s'"
  using assms
proof cases
  case (traffic cl st)
  then show ?thesis by (simp add: quiet_def same_tasks_put)
next
  case (channel_create i c create run pre Online uids ids c')
  then show ?thesis
    by (intro disjI2) (simp add: quiet_update same_task_def createChannelWithIds_flags)
next
  case (channel_send i c t E run run_at run2 inp inp2 c' cl)
  then show ?thesis
    using ch_willSendMsg_flags [OF channel_send(5)] by (intro disjI2) (simp add: quiet_update_put same_task_def)
next
  case (p2p_send i p t E prun inp inp2 p' cl)
  then show ?thesis
    using p2p_willSendMsg_flags [OF p2p_send(5)] by (intro disjI2) (simp add: quiet_update_put same_task_def)
qed (blast | intro disjI2, simp add: quiet_update same_task_def)+

lemma server_inv_step: "server_step s s' \<Longrightarrow> server_inv s \<Longrightarrow> server_inv s'"
  using server_step_quiet server_inv_start server_inv_stop server_inv_same unfolding quiet_def by blast

lemma server_reach_inv: "server_reach s \<Longrightarrow> server_inv s"
proof (induction rule: server_reach.induct)
  case (boot so d)
  show ?case by (simp add: server_inv_def server_New_def)
qed (rule server_inv_step)

section \<open>The tasks are those of the configuration\<close>

definition channel_kinds :: "taskCfg \<Rightarrow> taskType list" where
  "channel_kinds cfg =
     List.map_filter (\<lambda>ch. case ch of
       None \<Rightarrow> None | Some c \<Rightarrow> if ch_Count c \<le> 0 then None else Some taskChannel) (cfg_Channels cfg)"

definition p2p_kinds :: "taskCfg \<Rightarrow> taskType list" where
  "p2p_kinds cfg = (case cfg_P2p cfg of
     None \<Rightarrow> [] | Some c \<Rightarrow> if 0 < p2p_Count c then [taskP2p] else [])"

definition layout :: "server \<Rightarrow> bool" where
  "layout s \<longleftrightarrow> sv_tasks s = [] \<or>
     (\<exists>cfg. sv_taskCfg s = Some cfg \<and>
        map task_type (sv_tasks s) = taskOnline # channel_kinds cfg @ p2p_kinds cfg @ [taskStats])"

lemma channels_of_kinds: "map task_type (channels_of n (cfg_Channels cfg)) = channel_kinds cfg"
proof -
  have "map task_type (channels_of n cs) = List.map_filter (\<lambda>ch. case ch of
       None \<Rightarrow> None | Some c \<Rightarrow> if ch_Count c \<le> 0 then None else Some taskChannel) cs" for cs
    by (induction cs arbitrary: n) (auto simp: channels_of_def map_filter_simps split: option.splits)
  then show ?thesis by (simp add: channel_kinds_def)
qed

lemma fresh_tasks_kinds:
  assumes "fresh_tasks ne cfg ts"
  shows "map task_type ts = taskOnline # channel_kinds cfg @ p2p_kinds cfg @ [taskStats]"
  using assms
  by (auto simp: fresh_tasks_def Let_def channels_of_kinds p2p_kinds_def split: option.splits if_splits)

lemma disk_only:
  assumes "s' = s\<lparr>sv_disk := d\<rparr>"
  shows "sv_tasks s' = sv_tasks s" and "sv_taskCfg s' = sv_taskCfg s"
  unfolding assms by simp_all

lemma layout_step:
  assumes "server_step s s'" and "layout s"
  shows "layout s'"
proof -
  consider ne req r where "api_start ne req s = Some (s', r)" | se r where "api_stop se s = (s', r)" | "quiet s s'"
    using server_step_quiet [OF assms(1)] by blast
  then show ?thesis
  proof cases
    case 1
    from api_start_cases [OF 1] show ?thesis
    proof (elim disjE conjE exE)
      assume "s' = s\<lparr>sv_disk := sv_disk s'\<rparr>"
      then have "sv_tasks s' = sv_tasks s" and "sv_taskCfg s' = sv_taskCfg s"
        by (rule disk_only)+
      then show ?thesis using assms(2) by (simp add: layout_def)
    qed (simp add: layout_def fresh_tasks_kinds)
  next
    case 2
    then have "map task_type (sv_tasks s') = map task_type (sv_tasks s) \<and> sv_taskCfg s' = sv_taskCfg s"
      using stop_each_types [of se "sv_tasks s"]
      by (auto simp: api_stop_def stop_launch_def stopTask_def split: if_splits prod.splits option.splits)
    then show ?thesis using assms(2) by (auto simp: layout_def)
  next
    case 3
    then have "map task_type (sv_tasks s') = map task_type (sv_tasks s) \<and> sv_taskCfg s' = sv_taskCfg s"
      by (auto simp: quiet_def list_all2_conv_all_nth same_task_def intro!: nth_equalityI)
    then show ?thesis using assms(2) by (auto simp: layout_def)
  qed
qed

lemma server_reach_layout: "server_reach s \<Longrightarrow> layout s"
proof (induction rule: server_reach.induct)
  case (boot so d)
  show ?case by (simp add: layout_def server_New_def)
qed (rule layout_step)

lemma channel_kinds_only: "set (channel_kinds cfg) \<subseteq> {taskChannel}"
  by (auto simp: channel_kinds_def List.map_filter_def split: option.splits if_splits)

lemma p2p_kinds_only: "set (p2p_kinds cfg) \<subseteq> {taskP2p}"
  by (auto simp: p2p_kinds_def split: option.splits if_splits)

lemma kinds_sorted: "sorted (taskOnline # channel_kinds cfg @ p2p_kinds cfg @ [taskStats])"
proof -
  have "sorted ks" if "set ks \<subseteq> {k}" for ks and k :: taskType
    using that by (induction ks) auto
  then have "sorted (channel_kinds cfg)" "sorted (p2p_kinds cfg)"
    using channel_kinds_only p2p_kinds_only by blast+
  moreover have "a \<le> b" if "a \<in> set (channel_kinds cfg)" "b \<in> set (p2p_kinds cfg)" for a b
  proof -
    have "a = taskChannel" "b = taskP2p" using that channel_kinds_only p2p_kinds_only by blast+
    then show ?thesis by (simp add: less_eq_taskType_def)
  qed
  moreover have "taskOnline \<le> a" "a \<le> taskStats" for a
    by (cases a; simp add: less_eq_taskType_def)+
  ultimately show ?thesis by (auto simp: sorted_append)
qed

text \<open>What a lookup by kind finds depends on the kinds alone.\<close>

lemma getOnlineTask_kind: "getOnlineTask s \<noteq> None \<longleftrightarrow> taskOnline \<in> set (map task_type (sv_tasks s))"
proof -
  have "(case find (\<lambda>t. task_type t = taskOnline) ts of Some (T_Online t) \<Rightarrow> Some t | _ \<Rightarrow> None) \<noteq> None \<longleftrightarrow>
    taskOnline \<in> set (map task_type ts)" for ts
    by (induction ts) (auto split: task.splits)
  then show ?thesis by (simp add: getOnlineTask_def getTask_def)
qed

lemma getP2pTask_kind: "getP2pTask s \<noteq> None \<longleftrightarrow> taskP2p \<in> set (map task_type (sv_tasks s))"
proof -
  have "(case find (\<lambda>t. task_type t = taskP2p) ts of Some (T_P2p t) \<Rightarrow> Some t | _ \<Rightarrow> None) \<noteq> None \<longleftrightarrow>
    taskP2p \<in> set (map task_type ts)" for ts
    by (induction ts) (auto split: task.splits)
  then show ?thesis by (simp add: getP2pTask_def getTask_def)
qed

lemma getChannelTasks_kinds:
  "length (getChannelTasks s) = count_list (map task_type (sv_tasks s)) taskChannel"
proof -
  have "length (List.map_filter (\<lambda>t. case t of T_Channel c \<Rightarrow> Some c | _ \<Rightarrow> None) ts) =
    count_list (map task_type ts) taskChannel" for ts
    by (induction ts) (auto simp: map_filter_simps split: task.splits)
  then show ?thesis by (simp add: getChannelTasks_def)
qed

lemma channel_kinds_count:
  "count_list (channel_kinds cfg) taskChannel + count_list (p2p_kinds cfg) taskChannel = length (channel_kinds cfg)"
proof -
  have "set ks \<subseteq> {taskChannel} \<Longrightarrow> count_list ks taskChannel = length ks" for ks
    by (induction ks) auto
  moreover have "count_list (p2p_kinds cfg) taskChannel = 0"
    using p2p_kinds_only [of cfg] by (auto simp: count_list_0_iff)
  ultimately show ?thesis using channel_kinds_only by simp
qed

section \<open>Properties\<close>

definition demo_server :: server where
  "demo_server = server_New (default_sopts\<lparr>opt_Id := ''m'', NewSeq := False\<rparr>) demo_disk"

definition demo_cfg :: taskCfg where
  "demo_cfg =
     \<lparr>cfg_Online = 2,
      cfg_Channels = [Some \<lparr>ch_Count = 0, ch_Type = 0, ch_Subscriber = None, ch_MsgRate = 60\<rparr>,
                      Some \<lparr>ch_Count = 1, ch_Type = 0, ch_Subscriber = None, ch_MsgRate = 60\<rparr>],
      cfg_P2p = Some \<lparr>p2p_Count = 1, p2p_MsgRate = 60\<rparr>, cfg_UserPrefix = [], cfg_ChannelPrefix = ''c''\<rparr>"

definition demo_start_env :: start_env where
  "demo_start_env = \<lparr>sn_spare = (\<lambda>_. 0), sn_draws = [(1, 1), (1, 0)], sn_now = 7\<rparr>"

definition demo_stop_env :: stop_env where
  "demo_stop_env =
     \<lparr>st_env = demo_env, st_order = [], st_chan = (\<lambda>_. 0), st_wait = (\<lambda>_ c. c), st_pause = (\<lambda>_ c. c),
      st_wreck = (\<lambda>c. c)\<rparr>"

definition demo_started :: server where
  "demo_started = (case api_start demo_start_env (Inr (Some demo_cfg)) demo_server of
     Some (s, r) \<Rightarrow> s | None \<Rightarrow> demo_server)"

lemma demo_api_start: "api_start demo_start_env (Inr (Some demo_cfg)) demo_server = Some (demo_started, Inr ResponseOK)"
proof -
  have "case api_start demo_start_env (Inr (Some demo_cfg)) demo_server of
      Some (s, r) \<Rightarrow> r = Inr ResponseOK | None \<Rightarrow> False" by code_simp
  then show ?thesis
    by (cases "api_start demo_start_env (Inr (Some demo_cfg)) demo_server") (auto simp: demo_started_def)
qed

lemma demo_started_reach: "server_reach demo_started"
  using server_reach.step [OF server_reach.boot server_step.start_handler [OF demo_api_start [unfolded demo_server_def]]] .



text \<open>
  C14. The stop handler, in every state that the server reaches with its handlers running one after
  the other: it refuses when nothing runs; otherwise it ends every task and closes every task's
  channel, none of them for the second time; it panics only when flushing or closing a client does.
\<close>

theorem stop_handler_outcome:
  assumes "server_reach s" and "api_stop se s = (s', r)"
  shows "case r of
      Inl p \<Rightarrow> isRunning s \<and> (\<exists>t ts. sv_tasks s = T_Online t # ts \<and> stopAllClient se (on_clients t) = Inl p)
    | Inr rep \<Rightarrow>
        if isRunning s
        then rep = ResponseOK \<and> \<not> isRunning s' \<and> list_all task_stopped (sv_tasks s')
        else rep = ResponseError Err_Task_Not_Running \<and> s' = s"
proof (cases "isRunning s")
  case False
  then show ?thesis using assms(2) by (auto simp: api_stop_def)
next
  case True
  then have "stop_launch se s = (s', r)" using assms(2) by (simp add: api_stop_def)
  note S = stop_launch_running [OF server_reach_inv [OF assms(1)] True this]
  show ?thesis
  proof (cases r)
    case (Inl p)
    with S True show ?thesis by simp
  next
    case (Inr rep)
    with S True show ?thesis by (simp add: isRunning_def list_ex_iff list_all_iff)
  qed
qed

theorem stop_handler_outcome_witness:
  "\<exists>s'. api_stop demo_stop_env demo_started = (s', Inr ResponseOK) \<and> \<not> isRunning s'"
proof -
  obtain s' r where r: "api_stop demo_stop_env demo_started = (s', r)" by fastforce
  have run: "isRunning demo_started" by code_simp
  have "case api_stop demo_stop_env demo_started of (s', Inr rep) \<Rightarrow> True | _ \<Rightarrow> False" by code_simp
  then obtain rep where "r = Inr rep" using r by (cases r) auto
  then show ?thesis
    using stop_handler_outcome [OF demo_started_reach r] run r by simp
qed



text \<open>
  C13. The list of tasks is well formed. In every reachable state that has tasks, they are those of the
  last configuration: the online task, a channel task for every entry of channels with a positive
  count, the private chats when wanted, the statistics; in this order, in which a stop goes through
  them, so the users go offline first; all of them unstopped or all ended. So every
  lookup by kind finds what it looks for: the online task is never missing, and there is a
  private-chat task exactly when the configuration asks for one.
\<close>

theorem reachable_tasks:
  assumes "server_reach s" and "sv_tasks s \<noteq> []"
  shows "\<exists>cfg. sv_taskCfg s = Some cfg \<and>
    map task_type (sv_tasks s) = taskOnline # channel_kinds cfg @ p2p_kinds cfg @ [taskStats] \<and>
    sorted (map task_type (sv_tasks s)) \<and> getOnlineTask s \<noteq> None \<and> (getP2pTask s \<noteq> None \<longleftrightarrow> p2p_kinds cfg \<noteq> []) \<and>
    length (getChannelTasks s) = length (channel_kinds cfg) \<and>
    (list_all (\<lambda>t. \<not> task_stopped t) (sv_tasks s) \<or>
     list_all (\<lambda>t. \<not> task_running t \<and> task_stopped t) (sv_tasks s))"
proof -
  obtain cfg where cfg: "sv_taskCfg s = Some cfg"
    "map task_type (sv_tasks s) = taskOnline # channel_kinds cfg @ p2p_kinds cfg @ [taskStats]"
    using server_reach_layout [OF assms(1)] assms(2) by (auto simp: layout_def)
  have ks: "set (channel_kinds cfg) \<subseteq> {taskChannel}" "set (p2p_kinds cfg) \<subseteq> {taskP2p}"
    by (rule channel_kinds_only, rule p2p_kinds_only)
  have "sorted (map task_type (sv_tasks s))" unfolding cfg(2) by (rule kinds_sorted)
  moreover
  have "getOnlineTask s \<noteq> None" unfolding getOnlineTask_kind cfg(2) by simp
  moreover have "getP2pTask s \<noteq> None \<longleftrightarrow> p2p_kinds cfg \<noteq> []"
    unfolding getP2pTask_kind cfg(2) using ks by (cases "p2p_kinds cfg") auto
  moreover have "length (getChannelTasks s) = length (channel_kinds cfg)"
    unfolding getChannelTasks_kinds cfg(2) by (simp add: channel_kinds_count)
  ultimately show ?thesis
    using cfg server_reach_inv [OF assms(1)] by (auto simp: server_inv_def)
qed

theorem reachable_tasks_witness:
  "getOnlineTask demo_started \<noteq> None \<and> getP2pTask demo_started \<noteq> None"
proof -
  have ne: "sv_tasks demo_started \<noteq> []" by code_simp
  have "case sv_taskCfg demo_started of Some cfg \<Rightarrow> p2p_kinds cfg \<noteq> [] | None \<Rightarrow> False" by code_simp
  with reachable_tasks [OF demo_started_reach ne] show ?thesis by auto
qed

text \<open>
  C40. Two start requests that overlap: the handler looks whether a test runs and starts the tasks
  later. When both have looked before either started anything, both answer OK, and the second one
  replaces the list of tasks by its own: every task of the first is running and not stopped then,
  and the server, that knows only its list, can neither count nor stop them any more.
\<close>

theorem overlapping_starts:
  assumes "start_check req s = (s1, Inr (Inr cfg))" and "start_check req' s1 = (s2, Inr (Inr cfg'))"
    and "start_launch ne cfg s2 = Some (s3, r)" and "start_launch ne' cfg' s3 = Some (s4, r')"
  shows "r = Inr ResponseOK \<and> r' = Inr ResponseOK \<and> sv_taskCfg s4 = Some cfg' \<and>
    fresh_tasks ne cfg (sv_tasks s3) \<and> fresh_tasks ne' cfg' (sv_tasks s4) \<and>
    list_all (\<lambda>t. task_running t \<and> \<not> task_stopped t) (sv_tasks s3)"
proof -
  have "None \<notin> set (cfg_Channels cfg)" and "None \<notin> set (cfg_Channels cfg')"
    using start_check_passed assms(1,2) by blast+
  then have "r = Inr ResponseOK \<and> fresh_tasks ne cfg (sv_tasks s3)"
    and "r' = Inr ResponseOK \<and> fresh_tasks ne' cfg' (sv_tasks s4) \<and> sv_taskCfg s4 = Some cfg'"
    using start_launch_fresh [OF _ assms(3)] start_launch_fresh [OF _ assms(4)] by auto
  then show ?thesis using fresh_tasks_up [of ne cfg "sv_tasks s3"] by blast
qed

theorem overlapping_starts_witness:
  "\<exists>s1 cfg s2 cfg' s3 s4. start_check (Inr (Some demo_cfg)) demo_server = (s1, Inr (Inr cfg)) \<and>
     start_check (Inr (Some demo_cfg)) s1 = (s2, Inr (Inr cfg')) \<and>
     start_launch demo_start_env cfg s2 = Some (s3, Inr ResponseOK) \<and>
     start_launch demo_start_env cfg' s3 = Some (s4, Inr ResponseOK) \<and>
     list_all (\<lambda>t. task_running t \<and> \<not> task_stopped t) (sv_tasks s3)"
proof -
  let ?req = "Inr (Some demo_cfg)"
  have ev: "case start_check ?req demo_server of (s1, Inr (Inr cfg)) \<Rightarrow>
      (case start_check ?req s1 of (s2, Inr (Inr cfg')) \<Rightarrow>
         (case start_launch demo_start_env cfg s2 of Some (s3, r) \<Rightarrow>
            start_launch demo_start_env cfg' s3 \<noteq> None | None \<Rightarrow> False)
       | _ \<Rightarrow> False) | _ \<Rightarrow> False" by code_simp
  obtain s1 q where c: "start_check ?req demo_server = (s1, q)" by fastforce
  with ev obtain cfg where q: "q = Inr (Inr cfg)" by (auto split: sum.splits)
  obtain s2 q' where c': "start_check ?req s1 = (s2, q')" by fastforce
  with ev c q obtain cfg' where q': "q' = Inr (Inr cfg')" by (auto split: sum.splits)
  from ev c q c' q' obtain s3 r s4 r' where l: "start_launch demo_start_env cfg s2 = Some (s3, r)"
    "start_launch demo_start_env cfg' s3 = Some (s4, r')" by (auto split: option.splits)
  from overlapping_starts [OF c [unfolded q] c' [unfolded q'] l] c q c' q' l show ?thesis by auto
qed

end
