(* ===== verification/Base_Api.thy ===== *)
theory Base_Api
  imports Server_Lifecycle
begin

text \<open>
  The rest of the HTTP interface of a test machine: \<^verbatim>\<open>server/api_base.go\<close> (the exchange of addresses,
  the state of the machine and its descriptions of sizes and times), the report of
  \<^verbatim>\<open>server/api_stress.go\<close>, the round of the statistics task (\<^verbatim>\<open>server/task_stats.go\<close>), and how
  \<^verbatim>\<open>main.go\<close> puts the server together.
\<close>

section \<open>Descriptions\<close>

text \<open>\<^verbatim>\<open>%02d\<close>, and \<^verbatim>\<open>%.2f\<close> of a number of hundredths.\<close>

definition sprintf_02d :: "int \<Rightarrow> string" where
  "sprintf_02d i =
     (if i < 0 then CHR ''-'' # replicate (1 - length (dec (nat (- i)))) (CHR ''0'') @ dec (nat (- i))
      else replicate (2 - length (dec (nat i))) (CHR ''0'') @ dec (nat i))"

definition formatTime :: "int \<Rightarrow> string" where
  "formatTime second =
     (let hours = go_div second 3600; minutes = go_div (go_mod second 3600) 60; seconds = go_mod second 60
      in sprintf_02d hours @ CHR '':'' # sprintf_02d minutes @ CHR '':'' # sprintf_02d seconds)"

text \<open>
  Sizes: \<^verbatim>\<open>float64(bytes)\<close> rounds to 53 bits, the division by a power of two is exact, and printing
  rounds the quotient to hundredths.
\<close>

definition hundredths :: "int \<Rightarrow> int \<Rightarrow> string" where
  "hundredths b unit =
     (let h = half_even (fl b * 100) unit in itoa (h div 100) @ CHR ''.'' # sprintf_02d (h mod 100))"

definition KB :: int where "KB = 1024"

definition formatBytes :: "int \<Rightarrow> string" where
  "formatBytes b =
     (let MB = KB * 1024; GB = MB * 1024; TB = GB * 1024; PB = TB * 1024
      in if PB \<le> b then hundredths b PB @ '' PB''
         else if TB \<le> b then hundredths b TB @ '' TB''
         else if GB \<le> b then hundredths b GB @ '' GB''
         else if MB \<le> b then hundredths b MB @ '' MB''
         else if KB \<le> b then hundredths b KB @ '' KB''
         else itoa b @ '' B'')"

section \<open>The report\<close>

record statsResp =
  rs_stats :: stats
  rs_TaskDuration :: int
  rs_TaskDurationDesc :: string

definition in_ms :: "int \<Rightarrow> int" where
  "in_ms ns = go_div ns 1000000"

text \<open>The counters as they are, the latencies in milliseconds.\<close>

definition newStatsResp :: "stats \<Rightarrow> statsResp" where
  "newStatsResp s =
     \<lparr>rs_stats = s\<lparr>s_sendMinLatency := in_ms (s_sendMinLatency s), s_sendMaxLatency := in_ms (s_sendMaxLatency s),
        s_sendAvgLatency := in_ms (s_sendAvgLatency s), s_recvMinLatency := in_ms (s_recvMinLatency s),
        s_recvMaxLatency := in_ms (s_recvMaxLatency s), s_recvAvgLatency := in_ms (s_recvAvgLatency s)\<rparr>,
      rs_TaskDuration = 0, rs_TaskDurationDesc = []\<rparr>"

text \<open>How long the test has been running at the second \<open>now\<close>; \<open>idle\<close> describes a machine at rest.\<close>

definition task_duration :: "string \<Rightarrow> int \<Rightarrow> server \<Rightarrow> int \<times> string" where
  "task_duration idle now s =
     (if isRunning s
      then (case sv_startTime s of
              None \<Rightarrow> (0, idle)
            | Some start \<Rightarrow> (now - start, formatTime (now - start)))
      else (0, idle))"

definition api_report :: "string \<Rightarrow> int \<Rightarrow> server \<Rightarrow> statsResp" where
  "api_report idle now s =
     (case task_duration idle now s of
        (d, desc) \<Rightarrow> (newStatsResp (sv_stats s))\<lparr>rs_TaskDuration := d, rs_TaskDurationDesc := desc\<rparr>)"

section \<open>Exchange and health\<close>

text \<open>The reply of the exchange: the id and the status; \<open>req\<close> is the address in the request.\<close>

definition api_exchange ::
    "go_error + string \<Rightarrow> server \<Rightarrow> server \<times> (reply + string \<times> int)" where
  "api_exchange req s =
     (case req of
        Inl err \<Rightarrow> (s, Inl (ResponseError err))
      | Inr req_Server \<Rightarrow>
          if TrimSpace req_Server = [] then (s, Inl (ResponseError Err_Server_Empty))
          else
            let server = (if TrimSpace (opt_Server (sv_opts s)) \<noteq> [] then opt_Server (sv_opts s) else req_Server)
            in case writeServerAddr server (sv_opts s) (sv_disk s) of
                 (so, d, Some err) \<Rightarrow> (s\<lparr>sv_opts := so, sv_disk := d\<rparr>, Inl (ResponseError err))
               | (so, d, None) \<Rightarrow>
                   (s\<lparr>sv_opts := so, sv_disk := d, sv_baseURL := server\<rparr>, Inr (opt_Id so, 1)))"

definition api_health :: "int \<times> int" where
  "api_health = (200, 1)"

section \<open>The state of the machine\<close>

datatype testerStatus = testerStatusUnknow | testerStatusNormal | testerStatusRunning | testerStatusErr

definition tester_code :: "testerStatus \<Rightarrow> int" where
  "tester_code st = (case st of
     testerStatusUnknow \<Rightarrow> 0 | testerStatusNormal \<Rightarrow> 1 | testerStatusRunning \<Rightarrow> 2 | testerStatusErr \<Rightarrow> 3)"

text \<open>
  What the operating system says: cores per processor, load, memory. Percentages are given as they
  are, with their description by the formatting verb in \<open>pb_percent\<close>.
\<close>

record probe =
  pb_cores :: "go_error + int list"
  pb_load :: "go_error + int list"
  pb_memory :: "go_error + int \<times> int \<times> int \<times> int"
  pb_percent :: "int \<Rightarrow> string"
  pb_core_sign :: string
  pb_idle :: string

record systemInfo =
  si_No :: string
  si_CpuPercent :: int
  si_CpuPercentDesc :: string
  si_CpuCore :: int
  si_MemoryTotal :: int
  si_MemoryTotalDesc :: string
  si_MemoryFree :: int
  si_MemoryFreeDesc :: string
  si_MemoryUsed :: int
  si_MemoryUsedDesc :: string
  si_MemoryPercent :: int
  si_MemoryPercentDesc :: string
  si_Desc :: string
  si_Status :: testerStatus
  si_Task :: "taskCfg option"
  si_TaskDuration :: int
  si_TaskDurationDesc :: string

definition api_systemInfo :: "probe \<Rightarrow> int \<Rightarrow> server \<Rightarrow> (reply + systemInfo) go" where
  "api_systemInfo pb now s =
     (case pb_cores pb of
        Inl err \<Rightarrow> Inr (Inl (ResponseError err))
      | Inr cores \<Rightarrow>
          (case pb_load pb of
             Inl err \<Rightarrow> Inr (Inl (ResponseError err))
           | Inr percentages \<Rightarrow>
               (case pb_memory pb of
                  Inl err \<Rightarrow> Inr (Inl (ResponseError err))
                | Inr (tot, free, used, usedPercent) \<Rightarrow>
                    (let coreNum = sum_list cores;
                         duration = task_duration (pb_idle pb) now s
                     in go_bind (go_index percentages 0) (\<lambda>cpu.
                          Inr (Inr
                            \<lparr>si_No = opt_Id (sv_opts s), si_CpuPercent = cpu, si_CpuPercentDesc = pb_percent pb cpu,
                             si_CpuCore = coreNum, si_MemoryTotal = tot, si_MemoryTotalDesc = formatBytes tot,
                             si_MemoryFree = free, si_MemoryFreeDesc = formatBytes tot, si_MemoryUsed = used,
                             si_MemoryUsedDesc = formatBytes used, si_MemoryPercent = usedPercent,
                             si_MemoryPercentDesc = pb_percent pb usedPercent,
                             si_Desc = itoa coreNum @ pb_core_sign pb @ CHR '' '' # formatBytes tot,
                             si_Status = (if isRunning s then testerStatusRunning else testerStatusNormal),
                             si_Task = sv_taskCfg s, si_TaskDuration = fst duration,
                             si_TaskDurationDesc = snd duration\<rparr>))))))"

section \<open>A round of the statistics\<close>

text \<open>The clients in the order \<open>order\<close> in which the map is iterated.\<close>

definition allClient :: "string list \<Rightarrow> onlineTask \<Rightarrow> testClient list" where
  "allClient order t = List.map_filter (on_clients t) order"

definition mark_clients :: "string list \<Rightarrow> clients \<Rightarrow> clients" where
  "mark_clients order cl = (\<lambda>uid. if uid \<in> set order then map_option mark_counted (cl uid) else cl uid)"

text \<open>What a channel task expects to be received; the counts are those of its channels.\<close>

definition channel_expect :: "channelTask \<Rightarrow> int go" where
  "channel_expect c =
     (let sends = List.map_filter (ct_stats c) (remdups (elems (ct_channelIds c)))
      in if sends = [] then Inr 0
         else case ch_Subscriber (ct_cfg c) of
                None \<Rightarrow> Inl Nil_Dereference
              | Some sc \<Rightarrow> Inr (expectRecvMsgCount sends (sub_Online sc)))"

definition startCount :: "string list \<Rightarrow> int \<Rightarrow> server \<Rightarrow> server go" where
  "startCount order interval s =
     (case getOnlineTask s of
        None \<Rightarrow> Inl Nil_Dereference
      | Some t \<Rightarrow>
          go_bind (go_each (\<lambda>c es. go_bind (channel_expect c) (\<lambda>e. Inr (es @ [e]))) (getChannelTasks s) [])
            (\<lambda>expects.
              let st = snd (countMsg interval expects (map_option p2p_sendMsgCount (getP2pTask s)) (allClient order t)
                              (countOnline (allClient order t) (sv_stats s)))
              in Inr (s\<lparr>sv_tasks := put_clients (mark_clients order (on_clients t)) (sv_tasks s), sv_stats := st\<rparr>)))"

section \<open>The program\<close>

definition main_server ::
    "go_error + iface list \<Rightarrow> string \<Rightarrow> bool \<Rightarrow> string \<Rightarrow> disk \<Rightarrow> server go" where
  "main_server ifaces uuid seq serverAddr d =
     go_bind (NewServerOptions ifaces uuid [WithAddr '':9466'', WithServer serverAddr, WithNewSeq seq] d)
       (\<lambda>(d1, so). Inr (server_New so d1))"

section \<open>Facts\<close>

lemma undec_02d: "0 \<le> i \<Longrightarrow> undec (sprintf_02d i) = nat i"
  by (simp add: sprintf_02d_def undec_zeros)

lemma sprintf_02d_no_colon: "0 \<le> i \<Longrightarrow> CHR '':'' \<notin> set (sprintf_02d i)"
  by (auto simp: sprintf_02d_def dec_no_colon)

text \<open>The description of a time determines it.\<close>

lemma formatTime_inj:
  assumes "0 \<le> a" and "0 \<le> b" and "formatTime a = formatTime b"
  shows "a = b"
proof -
  have form: "formatTime x = sprintf_02d (x div 3600) @ CHR '':'' # sprintf_02d (x mod 3600 div 60) @
      CHR '':'' # sprintf_02d (x mod 60)" if "0 \<le> x" for x
    using that by (simp add: formatTime_def go_div_nonneg go_mod_nonneg Let_def)
  have inj: "x = y" if "0 \<le> x" "0 \<le> y" "sprintf_02d x = sprintf_02d y" for x y
    using that undec_02d by (metis nat_eq_iff)
  have nc: "0 \<le> x \<Longrightarrow> CHR '':'' \<notin> set (sprintf_02d x)" for x by (rule sprintf_02d_no_colon)
  from assms have eq: "sprintf_02d (a div 3600) = sprintf_02d (b div 3600) \<and>
      sprintf_02d (a mod 3600 div 60) @ CHR '':'' # sprintf_02d (a mod 60) =
      sprintf_02d (b mod 3600 div 60) @ CHR '':'' # sprintf_02d (b mod 60)"
    by (intro append_sep_inj [where c = "CHR '':''"]) (simp_all add: form nc pos_imp_zdiv_nonneg_iff)
  then have "sprintf_02d (a mod 3600 div 60) = sprintf_02d (b mod 3600 div 60) \<and>
      sprintf_02d (a mod 60) = sprintf_02d (b mod 60)"
    by (intro append_sep_inj [where c = "CHR '':''"]) (simp_all add: nc pos_imp_zdiv_nonneg_iff)
  with eq assms(1,2) have "a div 3600 = b div 3600" "a mod 3600 div 60 = b mod 3600 div 60" "a mod 60 = b mod 60"
    by (auto intro!: inj simp: pos_imp_zdiv_nonneg_iff)
  moreover have "x = 3600 * (x div 3600) + 60 * (x mod 3600 div 60) + x mod 60" for x :: int
  proof -
    have "x = 3600 * (x div 3600) + x mod 3600" by simp
    moreover have "x mod 3600 = 60 * (x mod 3600 div 60) + x mod 3600 mod 60" by simp
    moreover have "x mod 3600 mod 60 = x mod 60" by (rule mod_mod_cancel) simp
    ultimately show ?thesis by linarith
  qed
  ultimately show ?thesis by metis
qed

text \<open>The first address wins: once one is known, an exchange answers with it and keeps it.\<close>

lemma exchange_keeps_address:
  assumes "TrimSpace (opt_Server (sv_opts s)) \<noteq> []" and "api_exchange req s = (s', r)"
  shows "opt_Server (sv_opts s') = opt_Server (sv_opts s) \<and>
    (case r of Inr x \<Rightarrow> sv_baseURL s' = opt_Server (sv_opts s) \<and> d_files (sv_disk s') ''server'' = Some (opt_Server (sv_opts s))
     | Inl e \<Rightarrow> sv_baseURL s' = sv_baseURL s)"
  using assms
  by (auto simp: api_exchange_def writeServerAddr_def WriteFile_def Let_def split: sum.splits if_splits)

lemma startCount_flags:
  assumes "startCount order interval s = Inr s'"
  shows "server_step s s'"
proof -
  from assms obtain t st where "getOnlineTask s = Some t"
    and "s' = s\<lparr>sv_tasks := put_clients (mark_clients order (on_clients t)) (sv_tasks s), sv_stats := st\<rparr>"
    by (auto simp: startCount_def Let_def elim!: go_bindE split: option.splits)
  then show ?thesis using server_step.traffic by simp
qed

lemma main_server_reach: "main_server ifaces uuid seq addr1 d = Inr s \<Longrightarrow> server_reach s"
  by (auto simp: main_server_def elim!: go_bindE intro: server_reach.boot)

end
