(* ===== verification/Task_Loops.thy ===== *)
theory Task_Loops
  imports Base_Api
begin

text \<open>
  The goroutines of the tasks: loops that wait for the next tick or the end of the task. Here they
  run on the server as a whole, with what the other goroutines do in the meantime.
\<close>

section \<open>A loop with a ticker\<close>

text \<open>
  What the \<^verbatim>\<open>select\<close> of a loop sees: a tick with the draws and inputs of its round, the closed channel,
  or, while it waits, a change of the state by somebody else. When both a tick and the closed channel
  are there, the choice is free. The flag of a result tells that the loop has returned.
\<close>

datatype ('i, 's) wake = Tick 'i | Channel_Closed | Meanwhile "'s \<Rightarrow> 's"

fun ticker_loop ::
    "('i \<Rightarrow> 's \<Rightarrow> ('s \<times> bool) go) \<Rightarrow> ('i, 's) wake list \<Rightarrow> 's \<Rightarrow> ('s \<times> bool) go" where
  "ticker_loop body [] s = Inr (s, False)"
| "ticker_loop body (Channel_Closed # ws) s = Inr (s, True)"
| "ticker_loop body (Meanwhile f # ws) s = ticker_loop body ws (f s)"
| "ticker_loop body (Tick i # ws) s =
     go_bind (body i s) (\<lambda>(s1, returned).
       if returned then Inr (s1, True) else ticker_loop body ws s1)"

definition stay :: "'s go \<Rightarrow> ('s \<times> bool) go" where
  "stay r = go_bind r (\<lambda>s. Inr (s, False))"

lemma stay_Inr [go_simps]: "stay r = Inr (s, b) \<longleftrightarrow> r = Inr s \<and> \<not> b"
  by (cases r) (auto simp: stay_def)

text \<open>Whatever an invariant every round and everything in the meantime keep, the loop keeps.\<close>

lemma ticker_loop_inv:
  assumes "ticker_loop body ws s = Inr (s', returned)" and "P s"
    and "\<And>i s s' b. Tick i \<in> set ws \<Longrightarrow> body i s = Inr (s', b) \<Longrightarrow> P s \<Longrightarrow> P s'"
    and "\<And>f s. Meanwhile f \<in> set ws \<Longrightarrow> P s \<Longrightarrow> P (f s)"
  shows "P s'"
  using assms
proof (induction body ws s rule: ticker_loop.induct)
  case (3 body f ws s)
  show ?case
    by (rule "3.IH") (use "3.prems" in auto)
next
  case (4 body i ws s)
  from "4.prems"(1) obtain s1 b where r: "body i s = Inr (s1, b)"
    and k: "(if b then Inr (s1, True) else ticker_loop body ws s1) = Inr (s', returned)"
    by (auto elim!: go_bindE)
  have s1: "P s1" using "4.prems"(2,3) r by auto
  show ?case
  proof (cases b)
    case False
    show ?thesis
      by (rule "4.IH" [OF r refl False]) (use k False s1 "4.prems"(3,4) in auto)
  qed (use k s1 in simp)
qed auto

section \<open>How the tasks find each other\<close>

text \<open>The first task of a kind; a task of another kind under that tag would fail the assertion.\<close>

definition assert_online :: "task option \<Rightarrow> onlineTask option go" where
  "assert_online r = (case r of
     None \<Rightarrow> Inr None | Some (T_Online t) \<Rightarrow> Inr (Some t) | Some _ \<Rightarrow> Inl Type_Assertion)"

definition p2p_getOnlineTask :: "server \<Rightarrow> onlineTask option go" where
  "p2p_getOnlineTask s = assert_online (getTask taskOnline s)"

definition stt_getOnlineTask :: "server \<Rightarrow> onlineTask option go" where
  "stt_getOnlineTask s = assert_online (getTask taskOnline s)"

definition stt_getChannelTask :: "server \<Rightarrow> channelTask option go" where
  "stt_getChannelTask s = (case getTask taskChannel s of
     None \<Rightarrow> Inr None | Some (T_Channel c) \<Rightarrow> Inr (Some c) | Some _ \<Rightarrow> Inl Type_Assertion)"

text \<open>The assertions hold: the tag of a task is its kind.\<close>

lemma getTask_type: "getTask ty s = Some t \<Longrightarrow> task_type t = ty"
  by (auto simp: getTask_def find_Some_iff)

lemma getOnlineTask_agree:
  "p2p_getOnlineTask s = Inr (getOnlineTask s)" "stt_getOnlineTask s = Inr (getOnlineTask s)"
  using getTask_type [of taskOnline s]
  by (auto simp: p2p_getOnlineTask_def stt_getOnlineTask_def assert_online_def getOnlineTask_def
      split: option.splits task.splits)

lemma stt_getChannelTask_total:
  "stt_getChannelTask s = Inr (case getChannelTasks s of [] \<Rightarrow> None | c # cs \<Rightarrow> Some c)"
proof -
  have "(case find (\<lambda>t. task_type t = taskChannel) ts of
      None \<Rightarrow> Inr None | Some (T_Channel c) \<Rightarrow> Inr (Some c) | Some _ \<Rightarrow> Inl Type_Assertion) =
      (Inr (case List.map_filter (\<lambda>t. case t of T_Channel c \<Rightarrow> Some c | _ \<Rightarrow> None) ts of
         [] \<Rightarrow> None | c # cs \<Rightarrow> Some c) :: channelTask option go)" for ts
    by (induction ts) (auto simp: map_filter_simps split: task.splits)
  then show ?thesis by (simp add: stt_getChannelTask_def getTask_def getChannelTasks_def)
qed

section \<open>The rounds on the server\<close>

text \<open>The clients that a task works on are those of the online task.\<close>

definition set_task :: "nat \<Rightarrow> task \<Rightarrow> server \<Rightarrow> server" where
  "set_task i t s = s\<lparr>sv_tasks := (sv_tasks s)[i := t]\<rparr>"

definition set_clients :: "clients \<Rightarrow> server \<Rightarrow> server" where
  "set_clients cl s = s\<lparr>sv_tasks := put_clients cl (sv_tasks s)\<rparr>"

text \<open>
  A tick of the private-chat task with the number \<open>i\<close>; \<open>alive\<close> is its flag when a round looks at it.
\<close>

record p2p_inputs =
  pi_alive :: "nat \<Rightarrow> bool"
  pi_draws :: "nat \<Rightarrow> nat \<Rightarrow> attempt"
  pi_last :: "nat \<Rightarrow> attempt"

definition p2p_tick :: "env \<Rightarrow> nat \<Rightarrow> p2p_inputs \<Rightarrow> server \<Rightarrow> server go" where
  "p2p_tick E i inp s =
     (case sv_tasks s ! i of
        T_P2p p \<Rightarrow>
          go_bind (p2p_getOnlineTask s) (\<lambda>r.
            case r of
              None \<Rightarrow> Inl Nil_Dereference
            | Some t \<Rightarrow>
                go_bind (p2p_willSendMsg E (pi_alive inp) (pi_draws inp) (pi_last inp) (on_finished t) (p, on_clients t))
                  (\<lambda>(p1, cl). Inr (set_clients cl (set_task i (T_P2p p1) s))))
      | _ \<Rightarrow> Inr s)"

definition p2p_sendLoop ::
    "env \<Rightarrow> nat \<Rightarrow> (p2p_inputs, server) wake list \<Rightarrow> server \<Rightarrow> (server \<times> bool) go" where
  "p2p_sendLoop E i = ticker_loop (\<lambda>inp s. stay (p2p_tick E i inp s))"

text \<open>A tick of a channel task; without channels it does not look for the online task.\<close>

record channel_inputs =
  ci_alive :: "nat \<Rightarrow> bool"
  ci_alive_at :: "nat \<Rightarrow> nat \<Rightarrow> bool"
  ci_alive_last :: "nat \<Rightarrow> bool"
  ci_draws :: "nat \<Rightarrow> nat \<Rightarrow> attempt"
  ci_last :: "nat \<Rightarrow> attempt"

definition channel_tick :: "env \<Rightarrow> nat \<Rightarrow> channel_inputs \<Rightarrow> server \<Rightarrow> server go" where
  "channel_tick E i inp s =
     (case sv_tasks s ! i of
        T_Channel c \<Rightarrow>
          if \<not> ct_createFinished c then Inr s
          else (case getOnlineTask s of
              None \<Rightarrow> Inl Nil_Dereference
            | Some t \<Rightarrow>
                go_bind (ch_willSendMsg E (ci_alive inp) (ci_alive_at inp) (ci_alive_last inp) (ci_draws inp)
                           (ci_last inp) (on_finished t) (c, on_clients t))
                  (\<lambda>(c1, cl). Inr (set_clients cl (set_task i (T_Channel c1) s))))
      | _ \<Rightarrow> Inr s)"

definition channel_sendLoop ::
    "env \<Rightarrow> nat \<Rightarrow> (channel_inputs, server) wake list \<Rightarrow> server \<Rightarrow> (server \<times> bool) go" where
  "channel_sendLoop E i = ticker_loop (\<lambda>inp s. stay (channel_tick E i inp s))"

text \<open>The statistics task: a tick gives the order in which the clients are iterated.\<close>

definition stats_loop ::
    "int \<Rightarrow> (string list, server) wake list \<Rightarrow> server \<Rightarrow> (server \<times> bool) go" where
  "stats_loop interval = ticker_loop (\<lambda>order s. stay (startCount order interval s))"

text \<open>
  The online task: a tick gives the handshakes and the answer of the server under test. Its loop also
  ends by itself when it finds the task stopped.
\<close>

definition online_tick ::
    "env \<Rightarrow> byte \<Rightarrow> (string \<Rightarrow> handshake) \<Rightarrow> (string list \<Rightarrow> go_error + (string \<rightharpoonup> string))
       \<Rightarrow> onlineTask \<Rightarrow> (onlineTask \<times> bool) go" where
  "online_tick E ver hs route t =
     (if \<not> on_running t then Inr (t, True)
      else stay (go_bind (reconnectIfNeed E ver hs route (on_finished t) (elems (on_uids t)) (on_clients t))
                   (\<lambda>cl. Inr (t\<lparr>on_clients := cl\<rparr>))))"

definition online_loop ::
    "env \<Rightarrow> byte
       \<Rightarrow> ((string \<Rightarrow> handshake) \<times> (string list \<Rightarrow> go_error + (string \<rightharpoonup> string)), onlineTask) wake list
       \<Rightarrow> onlineTask \<Rightarrow> (onlineTask \<times> bool) go" where
  "online_loop E ver = ticker_loop (\<lambda>(hs, route). online_tick E ver hs route)"

definition waitOnlineFinished :: "(unit, onlineTask) wake list \<Rightarrow> onlineTask \<Rightarrow> (onlineTask \<times> bool) go" where
  "waitOnlineFinished = ticker_loop (\<lambda>_ t. Inr (t, on_finished t))"

text \<open>The loop that forgets old receipts of a client; a tick gives the time.\<close>

definition cleanLoop :: "(int, testClient) wake list \<Rightarrow> testClient \<Rightarrow> (testClient \<times> bool) go" where
  "cleanLoop = ticker_loop (\<lambda>now t. Inr (clean_tick now t, False))"

section \<open>After a stop\<close>

lemma stop_each_map: "snd (stop_each stop ts) = None \<Longrightarrow> fst (stop_each stop ts) = map (fst \<circ> stop) ts"
  by (induction ts) (auto split: prod.splits option.splits)

text \<open>Stopping takes back the flags that the loops look at.\<close>

fun flags_down :: "task \<Rightarrow> bool" where
  "flags_down (T_Online t) \<longleftrightarrow> \<not> on_finished t \<and> \<not> on_running t"
| "flags_down (T_Channel c) \<longleftrightarrow> \<not> ct_createFinished c"
| "flags_down t \<longleftrightarrow> True"

lemma task_stop_flags: "flags_down (fst (task_stop se t))"
  by (cases t) (auto simp: on_stop_def ct_stop_def Let_def split: sum.splits)

lemma put_clients_id:
  "find (\<lambda>t. task_type t = taskOnline) ts = Some (T_Online t) \<Longrightarrow> put_clients (on_clients t) ts = ts"
proof (induction ts)
  case (Cons a ts)
  then show ?case by (cases a) simp_all
qed simp

lemma set_clients_id: "getOnlineTask s = Some t \<Longrightarrow> set_clients (on_clients t) s = s"
  by (auto simp: getOnlineTask_def getTask_def set_clients_def split: option.splits task.splits
      dest: put_clients_id)

lemma set_task_id: "sv_tasks s ! i = t \<Longrightarrow> set_task i t s = s"
  by (auto simp: set_task_def)

lemma stopped_server:
  assumes "server_reach s" and "api_stop se s = (s1, Inr ResponseOK)"
  shows "\<exists>t ts. sv_tasks s1 = T_Online t # ts \<and> list_all flags_down (sv_tasks s1)"
proof -
  have run: "isRunning s" and l: "stop_launch se s = (s1, Inr ResponseOK)"
    using assms(2) by (auto simp: api_stop_def split: if_splits)
  have inv: "server_inv s" by (rule server_reach_inv [OF assms(1)])
  from l have st: "snd (stop_each (task_stop se) (sv_tasks s)) = None"
    and s1: "sv_tasks s1 = fst (stop_each (task_stop se) (sv_tasks s))"
    by (auto simp: stop_launch_def stopTask_def split: prod.splits option.splits)
  have eq: "sv_tasks s1 = map (fst \<circ> task_stop se) (sv_tasks s)" unfolding s1 by (rule stop_each_map [OF st])
  then have "list_all flags_down (sv_tasks s1)" by (simp add: list_all_iff task_stop_flags)
  moreover have "sv_tasks s1 \<noteq> []" using eq run by (auto simp: isRunning_def)
  moreover have "server_inv s1" using stop_launch_running [OF inv run l] ..
  ultimately show ?thesis by (auto simp: server_inv_def)
qed



end
