(* ===== verification/Test_Accounts.thy ===== *)
theory Test_Accounts
  imports Task_Loops
begin

text \<open>
  A whole test, from the start request to a round of the statistics: users come online, channels are
  created, the tasks send, receipts and messages come back, in any order. What the report says the
  users should receive is compared with what the clients were asked to send.
\<close>

section \<open>What happens in a test\<close>

text \<open>What can happen to one test client besides sending.\<close>

inductive callback_step :: "testClient \<times> stats \<Rightarrow> testClient \<times> stats \<Rightarrow> bool" where
  inner: "callback_step (k, st) (k\<lparr>tc_cli := c\<rparr>, st)"
| received: "onRecv_test now sz from_map packet (n, k, st) = (n', k', st') \<Longrightarrow> callback_step (k, st) (k', st')"
| acknowledged: "onSendack_test E now ack (k, st) = (k', st') \<Longrightarrow> callback_step (k, st) (k', st')"
| cleaned: "callback_step (k, st) (clean_tick now k, st)"

inductive test_step :: "env \<Rightarrow> server \<Rightarrow> server \<Rightarrow> bool" for E where
  batch: "getOnlineTask s = Some t \<Longrightarrow> \<not> on_finished t \<Longrightarrow>
    online E ver hs alive route uids (on_clients t) = Inr cl \<Longrightarrow> test_step E s (set_clients cl s)"
| finished: "i < length (sv_tasks s) \<Longrightarrow> sv_tasks s ! i = T_Online t \<Longrightarrow>
    test_step E s (set_task i (T_Online (t\<lparr>on_finished := True\<rparr>)) s)"
| again: "i < length (sv_tasks s) \<Longrightarrow> sv_tasks s ! i = T_Online t \<Longrightarrow>
    online_tick E ver hs route t = Inr (t', r) \<Longrightarrow> test_step E s (set_task i (T_Online t') s)"
| channel_ids: "i < length (sv_tasks s) \<Longrightarrow> sv_tasks s ! i = T_Channel c \<Longrightarrow>
    test_step E s (set_task i (T_Channel (c\<lparr>ct_channelIds := ids\<rparr>)) s)"
| create: "i < length (sv_tasks s) \<Longrightarrow> sv_tasks s ! i = T_Channel c \<Longrightarrow>
    createChannelWithIds create alive pre Online uids ids c = Inr c' \<Longrightarrow>
    test_step E s (set_task i (T_Channel c') s)"
| created: "i < length (sv_tasks s) \<Longrightarrow> sv_tasks s ! i = T_Channel c \<Longrightarrow>
    test_step E s (set_task i (T_Channel (c\<lparr>ct_createFinished := True\<rparr>)) s)"
| channel_second: "i < length (sv_tasks s) \<Longrightarrow> channel_tick E i inp s = Inr s' \<Longrightarrow> test_step E s s'"
| p2p_second: "i < length (sv_tasks s) \<Longrightarrow> p2p_tick E i inp' s = Inr s' \<Longrightarrow> test_step E s s'"
| callback: "getOnlineTask s = Some t \<Longrightarrow> on_clients t uid = Some k \<Longrightarrow>
    callback_step (k, sv_stats s) (k', st') \<Longrightarrow>
    test_step E s ((set_clients ((on_clients t)(uid \<mapsto> k')) s)\<lparr>sv_stats := st'\<rparr>)"
| count: "startCount order interval s = Inr s' \<Longrightarrow> test_step E s s'"

inductive test_reach :: "env \<Rightarrow> server \<Rightarrow> server \<Rightarrow> bool" for E s0 where
  start: "test_reach E s0 s0"
| step: "test_reach E s0 s \<Longrightarrow> test_step E s s' \<Longrightarrow> test_reach E s0 s'"

text \<open>A test goes through reachable states of the server, so all that holds in those holds during it.\<close>

lemma test_step_server:
  assumes "server_inv s" and "test_step E s s'"
  shows "server_step s s' \<or> s' = s"
  using assms(2)
proof cases
  case (batch t ver hs alive route uids cl)
  then show ?thesis using server_step.traffic [where s = s and cl = cl and st = "sv_stats s"] by (simp add: set_clients_def)
next
  case (again i t ver hs route t' r)
  then have "i = 0 \<and> (\<exists>ts. sv_tasks s = T_Online t # ts)"
    using assms(1) by (cases i) (auto simp: server_inv_def list_all_length is_online_def)
  moreover have "t' = t\<lparr>on_clients := on_clients t'\<rparr>"
    using again(4) by (auto simp: online_tick_def go_simps elim!: go_bindE split: if_splits)
  ultimately show ?thesis
    using server_step.traffic [where s = s and cl = "on_clients t'" and st = "sv_stats s"] again(1) by (auto simp: set_task_def)
next
  case (channel_second i inp)
  show ?thesis
  proof (cases "sv_tasks s ! i")
    case (T_Channel c)
    with channel_second(2) show ?thesis
      using server_step.channel_send [OF channel_second(1) T_Channel]
      by (fastforce simp: channel_tick_def set_clients_def set_task_def elim!: go_bindE split: if_splits option.splits)
  qed (use channel_second(2) in \<open>simp_all add: channel_tick_def\<close>)
next
  case (p2p_second i inp)
  show ?thesis
  proof (cases "sv_tasks s ! i")
    case (T_P2p p)
    with p2p_second(2) show ?thesis
      using server_step.p2p_send [OF p2p_second(1) T_P2p]
      by (fastforce simp: p2p_tick_def getOnlineTask_agree set_clients_def set_task_def elim!: go_bindE split: option.splits)
  qed (use p2p_second(2) in \<open>simp_all add: p2p_tick_def\<close>)
next
  case (callback t uid k k' st')
  then show ?thesis using server_step.traffic [where s = s and cl = "(on_clients t)(uid \<mapsto> k')" and st = st'] by (simp add: set_clients_def)
next
  case (count order interval)
  then show ?thesis
    using server_step.traffic by (auto simp: startCount_def Let_def elim!: go_bindE split: option.splits)
qed (auto simp: set_task_def intro: server_step.intros)

lemma test_reach_server: "test_reach E s0 s \<Longrightarrow> server_reach s0 \<Longrightarrow> server_reach s"
proof (induction rule: test_reach.induct)
  case (step s s')
  then show ?case using test_step_server [OF server_reach_inv] server_reach.step by blast
qed

section \<open>The counts of the clients\<close>

definition count_of :: "clients \<Rightarrow> string \<Rightarrow> int" where
  "count_of cl u = (case cl u of None \<Rightarrow> 0 | Some k \<Rightarrow> sendCount k)"

text \<open>Clients may be added or changed, but no count changes.\<close>

definition same_counts :: "clients \<Rightarrow> clients \<Rightarrow> bool" where
  "same_counts cl cl' \<longleftrightarrow> (finite (dom cl) \<longrightarrow> finite (dom cl')) \<and> dom cl \<subseteq> dom cl' \<and> count_of cl' = count_of cl"

lemma same_counts_refl [simp]: "same_counts cl cl"
  by (simp add: same_counts_def)

lemma same_counts_trans [trans]: "same_counts a b \<Longrightarrow> same_counts b c \<Longrightarrow> same_counts a c"
  by (auto simp: same_counts_def)

lemma same_counts_upd: "count_of cl u = sendCount k \<Longrightarrow> same_counts cl (cl(u \<mapsto> k))"
  by (auto simp: same_counts_def count_of_def)

lemma same_counts_total:
  assumes "same_counts cl cl'" and "finite (dom cl)"
  shows "sent_total cl' = sent_total cl"
proof -
  have total: "sent_total x = (\<Sum>u \<in> dom x. count_of x u)" for x
    unfolding sent_total_def by (rule sum.cong) (auto simp: count_of_def)
  have "(\<Sum>u \<in> dom cl'. count_of cl u) = (\<Sum>u \<in> dom cl. count_of cl u)"
    by (rule sum.mono_neutral_right)
      (use assms in \<open>auto simp: same_counts_def count_of_def split: option.splits\<close>)
  with assms show ?thesis by (simp add: total same_counts_def)
qed

lemma tc_connect_count: "tc_connect E h k = Inr (k', e) \<Longrightarrow> sendCount k' = sendCount k"
  by (auto simp: tc_connect_def elim!: go_bindE)

lemma connect_new_count: "connect_new E ver hs ad u = Inr (Some k) \<Longrightarrow> sendCount k = 0"
  by (auto simp: connect_new_def newTestClient_def elim!: go_bindE dest!: tc_connect_count split: if_splits)

lemma connect_all_counts:
  assumes "connect_all E ver hs ad uids cl = Inr cl'" and "\<forall>u \<in> set uids. count_of cl u = 0"
  shows "same_counts cl cl'"
  using assms
proof (induction uids arbitrary: cl)
  case (Cons u uids)
  from Cons.prems(1) obtain r where r: "connect_new E ver hs (ad u) u = Inr r"
    and rest: "connect_all E ver hs ad uids (case r of None \<Rightarrow> cl | Some k \<Rightarrow> cl(u \<mapsto> k)) = Inr cl'"
    by (auto elim!: go_bindE)
  have first: "same_counts cl (case r of None \<Rightarrow> cl | Some k \<Rightarrow> cl(u \<mapsto> k))"
  proof (cases r)
    case (Some k)
    with r Cons.prems(2) connect_new_count [of E ver hs "ad u" u k] show ?thesis
      by (simp add: same_counts_upd)
  qed simp
  also have "same_counts \<dots> cl'"
    by (rule Cons.IH [OF rest]) (use first Cons.prems(2) in \<open>simp add: same_counts_def\<close>)
  finally show ?case .
qed simp

lemma connect_again_counts: "connect_again E hs uids cl = Inr cl' \<Longrightarrow> same_counts cl cl'"
proof (induction uids arbitrary: cl)
  case (Cons u uids)
  show ?case
  proof (cases "\<exists>k. cl u = Some k \<and> \<not> tc_isConnected k")
    case False
    with Cons show ?thesis by (auto split: option.splits)
  next
    case True
    then obtain k where k: "cl u = Some k" "\<not> tc_isConnected k" by blast
    with Cons.prems obtain k1 e where k1: "tc_connect E (hs u) k = Inr (k1, e)"
      and rest: "connect_again E hs uids (cl(u \<mapsto> k1)) = Inr cl'" by (auto elim!: go_bindE)
    have "same_counts cl (cl(u \<mapsto> k1))"
      using tc_connect_count [OF k1] k by (intro same_counts_upd) (simp add: count_of_def)
    also have "same_counts \<dots> cl'" by (rule Cons.IH [OF rest])
    finally show ?thesis .
  qed
qed simp

lemma reconnectIfNeed_counts:
  assumes "reconnectIfNeed E ver hs route fin uids cl = Inr cl'"
  shows "same_counts cl cl'"
proof -
  let ?need = "filter (\<lambda>uid. cl uid = None) uids"
  have need: "\<forall>u \<in> set ?need. count_of cl u = 0" by (simp add: count_of_def)
  show ?thesis
  proof (cases "fin \<and> ?need \<noteq> []")
    case False
    then consider "cl' = cl" | "connect_again E hs uids cl = Inr cl'"
      using assms unfolding reconnectIfNeed_def Let_def by (cases fin) auto
    then show ?thesis by cases (simp, rule connect_again_counts)
  next
    case True
    show ?thesis
    proof (cases "route ?need")
      case (Inl err)
      with True assms show ?thesis by (simp add: reconnectIfNeed_def Let_def)
    next
      case (Inr m)
      let ?ad = "\<lambda>uid. let a = lookup_addr m uid in if a = [] then ''43.160.247.125:5001'' else a"
      have "go_bind (connect_all E ver hs ?ad ?need cl) (connect_again E hs uids) = Inr cl'"
        using True Inr assms unfolding reconnectIfNeed_def by (simp add: Let_def)
      then obtain cl1 where "connect_all E ver hs ?ad ?need cl = Inr cl1" "connect_again E hs uids cl1 = Inr cl'"
        by (rule go_bindE)
      then show ?thesis
        using same_counts_trans [OF connect_all_counts [OF _ need] connect_again_counts] by blast
    qed
  qed
qed

lemma onRecv_test_count: "sendCount (fst (snd (onRecv_test now sz f packet (n, k, st)))) = sendCount k"
  by (simp add: onRecv_test_def Let_def)

lemma onSendack_test_count: "sendCount (fst (onSendack_test E now ack (k, st))) = sendCount k"
  by (cases "sendMap k (sa_ClientSeq ack)") (simp_all add: onSendack_test_def Let_def)

lemma callback_count:
  assumes "callback_step (k, st) (k', st')"
  shows "sendCount k' = sendCount k"
  using assms
proof cases
  case (received now sz f packet n n')
  then show ?thesis using onRecv_test_count [of now sz f packet n k st] by simp
next
  case (acknowledged E now ack)
  then show ?thesis using onSendack_test_count [of E now ack k st] by simp
qed (simp_all add: clean_tick_def)

lemma mark_clients_counts: "same_counts cl (mark_clients order cl)"
proof -
  have "dom (mark_clients order cl) = dom cl" by (auto simp: mark_clients_def dom_def)
  moreover have "count_of (mark_clients order cl) = count_of cl"
    by (rule ext) (auto simp: mark_clients_def count_of_def mark_counted_def split: option.splits)
  ultimately show ?thesis by (simp add: same_counts_def)
qed

section \<open>The counts of the tasks\<close>

fun task_count :: "task \<Rightarrow> int" where
  "task_count (T_Channel c) = stats_total c"
| "task_count (T_P2p p) = p2p_sendMsgCount p"
| "task_count _ = 0"

fun task_ok :: "task \<Rightarrow> bool" where
  "task_ok (T_Channel c) \<longleftrightarrow> finite (dom (ct_stats c)) \<and> (\<forall>i n. ct_stats c i = Some n \<longrightarrow> 0 \<le> n)"
| "task_ok (T_P2p p) \<longleftrightarrow> 0 \<le> p2p_sendMsgCount p"
| "task_ok (T_Stats st) \<longleftrightarrow> True"
| "task_ok (T_Online t) \<longleftrightarrow> False"

definition counted :: "task list \<Rightarrow> int" where
  "counted ts = sum_list (map task_count ts)"

lemma counted_update:
  "i < length ts \<Longrightarrow> counted (ts[i := t]) = counted ts - task_count (ts ! i) + task_count t"
proof (induction ts arbitrary: i)
  case (Cons a ts)
  then show ?case by (cases i) (simp_all add: counted_def)
qed simp

text \<open>
  Between two steps the tasks have counted no more messages than the clients were asked to send, and
  nothing is sent before the users are online.
\<close>

definition accounts :: "onlineTask \<Rightarrow> task list \<Rightarrow> bool" where
  "accounts t ts \<longleftrightarrow>
     finite (dom (on_clients t)) \<and> list_all task_ok ts \<and> counted ts \<le> sent_total (on_clients t) \<and>
     (on_running t \<and> \<not> on_finished t \<longrightarrow> (\<forall>u. count_of (on_clients t) u = 0))"

definition accounts_inv :: "server \<Rightarrow> bool" where
  "accounts_inv s \<longleftrightarrow> (\<exists>t ts. sv_tasks s = T_Online t # ts \<and> on_running t \<and> accounts t ts)"

lemma accounts_clients:
  assumes "accounts t ts" and "same_counts (on_clients t) cl"
  shows "accounts (t\<lparr>on_clients := cl\<rparr>) ts"
proof -
  have fin: "finite (dom (on_clients t))" using assms(1) by (simp add: accounts_def)
  with assms(2) have "finite (dom cl)" "count_of cl = count_of (on_clients t)"
    by (simp_all add: same_counts_def)
  with assms(1) same_counts_total [OF assms(2) fin] show ?thesis by (simp add: accounts_def)
qed

lemma accounts_task:
  assumes "accounts t ts" and "i < length ts" and "task_ok a" and "task_count a \<le> task_count (ts ! i)"
  shows "accounts t (ts[i := a])"
  using assms by (auto simp: accounts_def counted_update list_all_length nth_list_update)

text \<open>A task and the clients move together.\<close>

lemma accounts_send:
  assumes "accounts t ts" and "i < length ts" and "task_ok a" and "finite (dom cl)" and "on_finished t"
    and "task_count a - task_count (ts ! i) \<le> sent_total cl - sent_total (on_clients t)"
  shows "accounts (t\<lparr>on_clients := cl\<rparr>) (ts[i := a])"
  using assms by (auto simp: accounts_def counted_update list_all_length nth_list_update)

lemma getOnlineTask_Cons [simp]: "sv_tasks s = T_Online t # ts \<Longrightarrow> getOnlineTask s = Some t"
  by (simp add: getOnlineTask_def getTask_def)

lemma other_task:
  assumes "accounts t ts" and "i < length (T_Online t # ts)" and "(T_Online t # ts) ! i = a" and "\<not> is_online a"
  obtains j where "i = Suc j" and "j < length ts" and "ts ! j = a"
  using assms by (cases i) (auto simp: is_online_def)

lemma no_other_online:
  assumes "accounts t ts" and "i < length (T_Online t # ts)" and "(T_Online t # ts) ! i = T_Online t1"
  shows "i = 0 \<and> t1 = t"
  using assms by (cases i) (auto simp: accounts_def list_all_length dest: spec)

section \<open>Creating channels\<close>

lemma create_one_ok:
  assumes "create_one create ch c = Inr c'" and "task_ok (T_Channel c)"
  shows "task_ok (T_Channel c') \<and> stats_total c' \<le> stats_total c"
proof -
  have c': "c' = c\<lparr>ct_stats := (ct_stats c)(ch \<mapsto> 0)\<rparr>"
    using assms(1) by (auto simp: create_one_def elim!: go_bindE split: option.splits)
  have "stats_total c' = (\<Sum>i \<in> dom (ct_stats c) - {ch}. the (ct_stats c i))"
    unfolding c' stats_total_def using assms(2)
    by (subst sum.remove [of _ ch]) (auto intro!: sum.cong)
  also have "\<dots> \<le> stats_total c"
    unfolding stats_total_def using assms(2) by (intro sum_mono2) auto
  finally show ?thesis using assms(2) by (auto simp: c')
qed

lemma createChannelWithIds_ok:
  assumes "createChannelWithIds create alive pre Online uids ids c = Inr c'" and "task_ok (T_Channel c)"
  shows "task_ok (T_Channel c') \<and> stats_total c' \<le> stats_total c"
proof -
  from assms(1) obtain c1 where c1: "with_subscribers pre Online uids c = Inr c1"
    and each: "go_each (create_one create) (takeWhile alive ids) c1 = Inr c'"
    unfolding createChannelWithIds_def by (rule go_bindE)
  have "ct_stats c1 = ct_stats c"
    using c1 by (auto simp: with_subscribers_def elim!: go_bindE split: if_splits prod.splits)
  then have "task_ok (T_Channel c1) \<and> stats_total c1 \<le> stats_total c"
    using assms(2) by (simp add: stats_total_def)
  then show ?thesis
    by (rule go_each_inv [OF each, where P = "\<lambda>x. task_ok (T_Channel x) \<and> stats_total x \<le> stats_total c"])
      (use create_one_ok order.trans in blast)
qed

section \<open>Sending\<close>

lemma channel_second_ok:
  assumes "ch_willSendMsg E run run_at run2 inp inp2 fin (c, cl) = Inr (c', cl')"
    and "task_ok (T_Channel c)" and "finite (dom cl)"
  shows "task_ok (T_Channel c') \<and> finite (dom cl') \<and> stats_total c' - stats_total c \<le> sent_total cl' - sent_total cl"
proof -
  have a: "dom cl' = dom cl \<and> dom (ct_stats c') = dom (ct_stats c) \<and>
      stats_total c' - stats_total c \<le> sent_total cl' - sent_total cl"
    using ch_cost.willSendMsg [OF assms(1)] assms(2,3) by (simp add: ch_account_def)
  have g: "\<forall>i n. ct_stats c i = Some n \<longrightarrow> (\<exists>n'. ct_stats c' i = Some n' \<and> n \<le> n')"
    using ch_frame.willSendMsg [OF assms(1)] by (simp add: counts_grow_def)
  have "0 \<le> n'" if "ct_stats c' i = Some n'" for i n'
  proof -
    have "i \<in> dom (ct_stats c)" using a that by blast
    then obtain n where "ct_stats c i = Some n" by blast
    with g that assms(2) show ?thesis by fastforce
  qed
  with a assms(2,3) show ?thesis by simp
qed

lemma p2p_second_ok:
  assumes "p2p_willSendMsg E run inp inp2 fin (p, cl) = Inr (p', cl')"
    and "task_ok (T_P2p p)" and "finite (dom cl)"
  shows "task_ok (T_P2p p') \<and> finite (dom cl') \<and>
    p2p_sendMsgCount p' - p2p_sendMsgCount p \<le> sent_total cl' - sent_total cl"
  using p2p_willSendMsg_account [OF assms(1,3)] assms(2,3) by simp

section \<open>Every step keeps the accounts\<close>

lemma set_task_other:
  assumes "sv_tasks s = T_Online t # ts" and "i = Suc j"
  shows "sv_tasks (set_task i a s) = T_Online t # ts[j := a]"
    and "sv_tasks (set_clients cl (set_task i a s)) = T_Online (t\<lparr>on_clients := cl\<rparr>) # ts[j := a]"
  using assms by (simp_all add: set_task_def set_clients_def)

lemma accounts_other:
  assumes "accounts_inv s" and "i < length (sv_tasks s)" and "sv_tasks s ! i = T_Channel c"
    and "task_ok (T_Channel c) \<Longrightarrow> task_ok (T_Channel c') \<and> stats_total c' \<le> stats_total c"
  shows "accounts_inv (set_task i (T_Channel c') s)"
proof -
  from assms(1) obtain t ts where s: "sv_tasks s = T_Online t # ts" and t: "on_running t" and a: "accounts t ts"
    by (auto simp: accounts_inv_def)
  obtain j where j: "i = Suc j" "j < length ts" "ts ! j = T_Channel c"
    by (rule other_task [OF a, of i "T_Channel c"]) (use assms(2,3) s in \<open>simp_all add: is_online_def\<close>)
  then have "task_ok (T_Channel c)" using a by (metis accounts_def list_all_length)
  then have "accounts t (ts[j := T_Channel c'])" using assms(4) a j by (intro accounts_task) simp_all
  with t show ?thesis unfolding accounts_inv_def set_task_other(1) [OF s j(1)] by blast
qed

lemma accounts_clients_inv:
  assumes "accounts_inv s" and "getOnlineTask s = Some t" and "same_counts (on_clients t) cl"
    and "sv_tasks s' = sv_tasks (set_clients cl s)"
  shows "accounts_inv s'"
proof -
  from assms(1,2) obtain ts where "sv_tasks s = T_Online t # ts" "on_running t" "accounts t ts"
    by (auto simp: accounts_inv_def)
  with accounts_clients [OF _ assms(3)] assms(4) show ?thesis
    by (auto simp: accounts_inv_def set_clients_def)
qed

lemma accounts_online:
  assumes "accounts_inv s" and "i < length (sv_tasks s)" and "sv_tasks s ! i = T_Online t"
    and "\<And>ts. on_running t \<Longrightarrow> accounts t ts \<Longrightarrow> on_running t' \<and> accounts t' ts"
  shows "accounts_inv (set_task i (T_Online t') s)"
proof -
  from assms(1) obtain t0 ts where s: "sv_tasks s = T_Online t0 # ts" and t: "on_running t0" and a: "accounts t0 ts"
    by (auto simp: accounts_inv_def)
  then have "i = 0 \<and> t = t0" using no_other_online [OF a, of i t] assms(2,3) by simp
  with assms(4) s t a show ?thesis by (simp add: accounts_inv_def set_task_def)
qed

lemma channel_tick_inv:
  assumes "accounts_inv s" and "i < length (sv_tasks s)" and "channel_tick E i inp s = Inr s'"
  shows "accounts_inv s'"
proof -
  from assms(1) obtain t ts where s: "sv_tasks s = T_Online t # ts" and t: "on_running t" and a: "accounts t ts"
    by (auto simp: accounts_inv_def)
  show ?thesis
  proof (cases "\<exists>c. sv_tasks s ! i = T_Channel c \<and> ct_createFinished c")
    case False
    with assms(3) have "s' = s" by (auto simp: channel_tick_def split: task.splits if_splits)
    with assms(1) show ?thesis by simp
  next
    case True
    then obtain c where c: "sv_tasks s ! i = T_Channel c" "ct_createFinished c" by blast
    obtain j where j: "i = Suc j" "j < length ts" "ts ! j = T_Channel c"
      by (rule other_task [OF a, of i "T_Channel c"]) (use assms(2) c s in \<open>simp_all add: is_online_def\<close>)
    have ok: "task_ok (T_Channel c)" and fin: "finite (dom (on_clients t))"
      using a j by (metis accounts_def list_all_length)+
    obtain c1 cl where w: "ch_willSendMsg E (ci_alive inp) (ci_alive_at inp) (ci_alive_last inp) (ci_draws inp)
        (ci_last inp) (on_finished t) (c, on_clients t) = Inr (c1, cl)"
      and s': "s' = set_clients cl (set_task i (T_Channel c1) s)"
      using assms(3) c s by (auto simp: channel_tick_def elim!: go_bindE)
    have "accounts (t\<lparr>on_clients := cl\<rparr>) (ts[j := T_Channel c1])"
    proof (cases "on_finished t")
      case True
      then show ?thesis using channel_second_ok [OF w ok fin] a j by (intro accounts_send) simp_all
    next
      case False
      with w c have "c1 = c \<and> cl = on_clients t" by (simp add: ch_willSendMsg_def)
      with a j show ?thesis by (metis accounts_clients list_update_id same_counts_refl)
    qed
    with t show ?thesis unfolding s' accounts_inv_def set_task_other(2) [OF s j(1)] by auto
  qed
qed

lemma p2p_tick_inv:
  assumes "accounts_inv s" and "i < length (sv_tasks s)" and "p2p_tick E i inp s = Inr s'"
  shows "accounts_inv s'"
proof -
  from assms(1) obtain t ts where s: "sv_tasks s = T_Online t # ts" and t: "on_running t" and a: "accounts t ts"
    by (auto simp: accounts_inv_def)
  show ?thesis
  proof (cases "\<exists>p. sv_tasks s ! i = T_P2p p")
    case False
    with assms(3) have "s' = s" by (auto simp: p2p_tick_def split: task.splits)
    with assms(1) show ?thesis by simp
  next
    case True
    then obtain p where p: "sv_tasks s ! i = T_P2p p" by blast
    obtain j where j: "i = Suc j" "j < length ts" "ts ! j = T_P2p p"
      by (rule other_task [OF a, of i "T_P2p p"]) (use assms(2) p s in \<open>simp_all add: is_online_def\<close>)
    have ok: "task_ok (T_P2p p)" and fin: "finite (dom (on_clients t))"
      using a j by (metis accounts_def list_all_length)+
    obtain p1 cl where w: "p2p_willSendMsg E (pi_alive inp) (pi_draws inp) (pi_last inp) (on_finished t)
        (p, on_clients t) = Inr (p1, cl)" and s': "s' = set_clients cl (set_task i (T_P2p p1) s)"
      using assms(3) p s by (auto simp: p2p_tick_def getOnlineTask_agree elim!: go_bindE)
    have "accounts (t\<lparr>on_clients := cl\<rparr>) (ts[j := T_P2p p1])"
    proof (cases "on_finished t")
      case True
      then show ?thesis using p2p_second_ok [OF w ok fin] a j by (intro accounts_send) simp_all
    next
      case False
      with w have "p1 = p \<and> cl = on_clients t" by (simp add: p2p_willSendMsg_def)
      with a j show ?thesis by (metis accounts_clients list_update_id same_counts_refl)
    qed
    with t show ?thesis unfolding s' accounts_inv_def set_task_other(2) [OF s j(1)] by auto
  qed
qed

lemma startCount_state:
  assumes "startCount order interval s = Inr s'" and "getOnlineTask s = Some t"
  shows "sv_tasks s' = sv_tasks (set_clients (mark_clients order (on_clients t)) s)"
  using assms by (auto simp: startCount_def set_clients_def Let_def elim!: go_bindE)

lemma online_counts:
  assumes "online E ver hs alive route uids cl = Inr cl'" and "\<forall>u. count_of cl u = 0"
  shows "same_counts cl cl'"
  using assms by (auto simp: online_def intro: connect_all_counts split: sum.splits)

lemma test_step_accounts: "test_step E s s' \<Longrightarrow> accounts_inv s \<Longrightarrow> accounts_inv s'"
proof (induction rule: test_step.induct)
  case (batch s t ver hs alive route uids cl)
  from batch(1,2,4) have "\<forall>u. count_of (on_clients t) u = 0"
    by (auto simp: accounts_inv_def accounts_def)
  from accounts_clients_inv [OF batch(4,1) online_counts [OF batch(3) this] refl] show ?case .
next
  case (finished i s t)
  show ?case
    by (rule accounts_online [OF finished(3,1,2)]) (simp add: accounts_def)
next
  case (again i s t ver hs route t' r)
  show ?case
  proof (rule accounts_online [OF again(4,1,2)])
    fix ts
    assume run: "on_running t" and a: "accounts t ts"
    then obtain cl where r: "reconnectIfNeed E ver hs route (on_finished t) (elems (on_uids t)) (on_clients t) = Inr cl"
      and t': "t' = t\<lparr>on_clients := cl\<rparr>"
      using again(3) by (auto simp: online_tick_def go_simps elim!: go_bindE)
    show "on_running t' \<and> accounts t' ts"
      using accounts_clients [OF a reconnectIfNeed_counts [OF r]] run by (simp add: t')
  qed
next
  case (channel_ids i s c ids)
  show ?case by (rule accounts_other [OF channel_ids(3,1,2)]) (simp add: stats_total_def)
next
  case (create i s c cr alive pre Online uids ids c')
  show ?case by (rule accounts_other [OF create(4,1,2)]) (rule createChannelWithIds_ok [OF create(3)])
next
  case (created i s c)
  show ?case by (rule accounts_other [OF created(3,1,2)]) (simp add: stats_total_def)
next
  case (channel_second i s inp s')
  show ?case by (rule channel_tick_inv [OF channel_second(3,1,2)])
next
  case (p2p_second i s inp' s')
  show ?case by (rule p2p_tick_inv [OF p2p_second(3,1,2)])
next
  case (callback s t uid k k' st')
  have "same_counts (on_clients t) ((on_clients t)(uid \<mapsto> k'))"
    using callback_count [OF callback(3)] callback(2) by (intro same_counts_upd) (simp add: count_of_def)
  then show ?case by (rule accounts_clients_inv [OF callback(4,1)]) simp
next
  case (count order interval s s')
  then obtain t where t: "getOnlineTask s = Some t" by (auto simp: accounts_inv_def)
  show ?case by (rule accounts_clients_inv [OF count(2) t mark_clients_counts startCount_state [OF count(1) t]])
qed

lemma test_reach_accounts: "test_reach E s0 s \<Longrightarrow> accounts_inv s0 \<Longrightarrow> accounts_inv s"
  by (induction rule: test_reach.induct) (auto intro: test_step_accounts)

text \<open>A test that has just been started.\<close>

lemma fresh_accounts:
  assumes "fresh_tasks ne cfg ts"
  shows "\<exists>t rest. ts = T_Online t # rest \<and> on_running t \<and> accounts t rest"
proof -
  let ?t = "on_start (sn_spare ne) (newOnlineTask cfg)"
  from assms obtain p2p where ts: "ts = T_Online ?t # channels_of 0 (cfg_Channels cfg) @ p2p @
      [T_Stats (stt_start newStatsTask)]"
    and c: "case cfg_P2p cfg of
        Some pc \<Rightarrow> (if 0 < p2p_Count pc
           then \<exists>p. p2p = [T_P2p p] \<and>
             p2p_start (cfg_UserPrefix cfg) (elems (on_uids ?t)) (sn_draws ne) (newP2pTask pc) = Some (Inr p)
           else p2p = [])
      | None \<Rightarrow> p2p = []"
    unfolding fresh_tasks_def Let_def by blast
  let ?ok = "\<lambda>t. task_ok t \<and> task_count t = 0"
  have "list_all ?ok (channels_of n cfgs)" for n cfgs
    by (auto simp: channels_of_def List.map_filter_def list_all_iff ct_start_def newChannelTask_def stats_total_def
        split: option.splits if_splits)
  moreover have "?ok (T_P2p p)"
    if "p2p_start pre uids draws (newP2pTask pc) = Some (Inr p)" for pre uids draws pc p
  proof -
    have "p2p_sendMsgCount p = p2p_sendMsgCount (newP2pTask pc)"
      using generateData_flags [OF that [unfolded p2p_start_def]]
      by (metis p2pTask.select_convs(5) p2pTask.surjective p2pTask.update_convs(1,3))
    then show ?thesis by (simp add: newP2pTask_def)
  qed
  with c have "list_all ?ok p2p" by (auto split: option.splits if_splits)
  ultimately have all: "list_all ?ok (tl ts)" by (simp add: ts)
  moreover have "list_all ?ok xs \<Longrightarrow> counted xs = 0" for xs
    by (induction xs) (simp_all add: counted_def)
  ultimately show ?thesis
    by (auto simp: ts accounts_def on_start_def newOnlineTask_def sent_total_def count_of_def list_all_iff)
qed

section \<open>The report\<close>

lemma sum_list_map_filter:
  assumes "distinct xs"
  shows "sum_list (map f (List.map_filter m xs)) = (\<Sum>x \<in> set xs \<inter> dom m. f (the (m x)) :: int)"
  using assms
proof (induction xs)
  case (Cons x xs)
  have "set (x # xs) \<inter> dom m = (if x \<in> dom m then insert x (set xs \<inter> dom m) else set xs \<inter> dom m)" by auto
  with Cons show ?case by (auto simp: map_filter_simps)
qed (simp add: map_filter_simps)

lemma allClient_total:
  assumes "distinct order" and "set order = dom (on_clients t)"
  shows "total sendCount (allClient order t) = sent_total (on_clients t)"
  using sum_list_map_filter [OF assms(1), of sendCount "on_clients t"] assms(2)
  by (simp add: total_def allClient_def sent_total_def)

lemma channel_expect_bound:
  assumes "channel_expect c = Inr e" and "task_ok (T_Channel c)" and "0 \<le> M"
    and "\<And>sc. ch_Subscriber (ct_cfg c) = Some sc \<Longrightarrow> sub_Online sc \<le> M + 1"
  shows "e \<le> M * stats_total c"
proof -
  let ?ids = "remdups (elems (ct_channelIds c))"
  let ?sends = "List.map_filter (ct_stats c) ?ids"
  have nn: "\<forall>n \<in> set ?sends. 0 \<le> n" using assms(2) by (auto simp: List.map_filter_def)
  have "sum_list (map (\<lambda>n. n) ?sends) = (\<Sum>i \<in> set ?ids \<inter> dom (ct_stats c). the (ct_stats c i))"
    by (rule sum_list_map_filter) simp
  also have "\<dots> \<le> stats_total c"
    unfolding stats_total_def using assms(2) by (intro sum_mono2) auto
  finally have le: "M * sum_list ?sends \<le> M * stats_total c" using assms(3) by (simp add: mult_left_mono)
  have "e \<le> M * sum_list ?sends"
  proof (cases "?sends = []")
    case True
    with assms(1) show ?thesis by (simp add: channel_expect_def)
  next
    case False
    with assms(1) obtain sc where sc: "ch_Subscriber (ct_cfg c) = Some sc"
      and e: "e = expectRecvMsgCount ?sends (sub_Online sc)"
      by (auto simp: channel_expect_def Let_def split: option.splits)
    have "sum_list (map (\<lambda>n. n * (sub_Online sc - 1)) xs) \<le> M * sum_list xs" if "\<forall>n \<in> set xs. 0 \<le> n" for xs
      using that
    proof (induction xs)
      case (Cons n xs)
      have "n * (sub_Online sc - 1) \<le> n * M" using assms(4) [OF sc] Cons.prems by (intro mult_left_mono) auto
      with Cons show ?case by (simp add: algebra_simps)
    qed simp
    with nn e show ?thesis by (simp add: expectRecvMsgCount_def)
  qed
  with le show ?thesis by simp
qed

lemma expects_bound:
  assumes "go_each (\<lambda>c es. go_bind (channel_expect c) (\<lambda>e. Inr (es @ [e]))) cs es0 = Inr es"
    and "\<And>c e. c \<in> set cs \<Longrightarrow> channel_expect c = Inr e \<Longrightarrow> e \<le> M * stats_total c"
  shows "sum_list es \<le> sum_list es0 + M * sum_list (map stats_total cs)"
  using assms
proof (induction cs arbitrary: es0)
  case (Cons c cs)
  from Cons.prems(1) obtain e where e: "channel_expect c = Inr e"
    and rest: "go_each (\<lambda>c es. go_bind (channel_expect c) (\<lambda>e. Inr (es @ [e]))) cs (es0 @ [e]) = Inr es"
    by (auto elim!: go_bindE)
  have "sum_list es \<le> sum_list (es0 @ [e]) + M * sum_list (map stats_total cs)"
    by (rule Cons.IH [OF rest]) (use Cons.prems(2) in simp)
  moreover have "e \<le> M * stats_total c" using Cons.prems(2) e by simp
  ultimately show ?case by (simp add: algebra_simps)
qed simp

lemma first_p2p_nonneg:
  "list_all task_ok ts \<Longrightarrow>
     0 \<le> (case find (\<lambda>t. task_type t = taskP2p) ts of Some (T_P2p p) \<Rightarrow> p2p_sendMsgCount p | _ \<Rightarrow> 0)"
  by (induction ts) (auto split: task.splits)

text \<open>The channel tasks and the first private-chat task have counted at most what all tasks have.\<close>

lemma counted_split:
  assumes "list_all task_ok ts"
  shows "sum_list (map stats_total (List.map_filter (\<lambda>t. case t of T_Channel c \<Rightarrow> Some c | _ \<Rightarrow> None) ts)) +
    (case find (\<lambda>t. task_type t = taskP2p) ts of Some (T_P2p p) \<Rightarrow> p2p_sendMsgCount p | _ \<Rightarrow> 0) \<le> counted ts"
  using assms
proof (induction ts)
  case (Cons a ts)
  show ?case using Cons first_p2p_nonneg [of ts] by (cases a) (auto simp: counted_def map_filter_simps)
qed (simp add: counted_def map_filter_simps)


section \<open>An example\<close>

definition demo_uids :: "string list" where
  "demo_uids = [''m:0:usr:0000000'', ''m:0:usr:0000001'']"

definition demo_new :: "string \<Rightarrow> testClient" where
  "demo_new uid = (case connect_new demo_env 4 (\<lambda>_. demo_handshake) ''tcp://127.0.0.1:5100'' uid of
     Inr (Some k) \<Rightarrow> k | _ \<Rightarrow> demo_user uid)"

definition demo_clients :: clients where
  "demo_clients = [''m:0:usr:0000000'' \<mapsto> demo_new ''m:0:usr:0000000'',
     ''m:0:usr:0000001'' \<mapsto> demo_new ''m:0:usr:0000001'']"

definition demo_online :: server where
  "demo_online = set_clients demo_clients demo_started"

text \<open>Cheaper clients to compute with: each gets another inner client that is connected.\<close>

definition demo_flat :: client where
  "demo_flat = (fresh_client ''tcp://127.0.0.1:5100'' demo_options)
     \<lparr>status := CONNECTED, conn := Some 0, next_conn := 1, aesKey := replicate 16 (CHR ''a''),
      writer := \<lparr>lw_w = Some (Conn_Writer demo_conn), lw_bufs = [], lw_limit = 1000, lw_pending = None,
                 lw_plimit = 1000\<rparr>\<rparr>"

definition demo_flat_users :: clients where
  "demo_flat_users = [''m:0:usr:0000000'' \<mapsto> (demo_user ''m:0:usr:0000000'')\<lparr>tc_cli := demo_flat\<rparr>,
     ''m:0:usr:0000001'' \<mapsto> (demo_user ''m:0:usr:0000001'')\<lparr>tc_cli := demo_flat\<rparr>]"

definition demo_finished :: server where
  "demo_finished = (case getOnlineTask demo_started of
     Some t \<Rightarrow> set_task 0 (T_Online (t\<lparr>on_clients := demo_flat_users, on_finished := True\<rparr>)) demo_started
   | None \<Rightarrow> demo_started)"

definition demo_inputs :: p2p_inputs where
  "demo_inputs = \<lparr>pi_alive = (\<lambda>_. True), pi_draws = (\<lambda>_ _. demo_attempt), pi_last = (\<lambda>_. demo_attempt)\<rparr>"

lemma demo_connect: "u \<in> set demo_uids \<Longrightarrow>
  connect_new demo_env 4 (\<lambda>_. demo_handshake) ''tcp://127.0.0.1:5100'' u = Inr (Some (demo_new u))"
proof -
  assume u: "u \<in> set demo_uids"
  have "list_all (\<lambda>u. case connect_new demo_env 4 (\<lambda>_. demo_handshake) ''tcp://127.0.0.1:5100'' u of
      Inr (Some k) \<Rightarrow> True | _ \<Rightarrow> False) demo_uids" by code_simp
  then have "case connect_new demo_env 4 (\<lambda>_. demo_handshake) ''tcp://127.0.0.1:5100'' u of
      Inr (Some k) \<Rightarrow> True | _ \<Rightarrow> False" using u by (simp add: list_all_iff)
  then show ?thesis by (auto simp: demo_new_def split: sum.splits option.splits)
qed

lemma demo_online_eq:
  "online demo_env 4 (\<lambda>_. demo_handshake) (\<lambda>_. True) (\<lambda>_. Inr (\<lambda>_. Some ''tcp://127.0.0.1:5100'')) demo_uids Map.empty =
     Inr demo_clients"
  using demo_connect by (simp add: online_def lookup_addr_def demo_uids_def demo_clients_def)

lemma demo_started_online:
  "\<exists>t ts. sv_tasks demo_started = T_Online t # ts \<and> on_clients t = Map.empty \<and> \<not> on_finished t"
proof -
  obtain d cfg ts where f: "fresh_tasks demo_start_env cfg ts" and st: "demo_started = demo_server\<lparr>sv_disk := d,
      sv_taskCfg := Some cfg, sv_startTime := Some (sn_now demo_start_env), sv_stats := zero_stats, sv_tasks := ts\<rparr>"
    using api_start_cases [OF demo_api_start] by auto
  have "sv_tasks demo_started = ts" by (subst st) simp
  with f obtain ts where "sv_tasks demo_started = T_Online (on_start (sn_spare demo_start_env) (newOnlineTask cfg)) # ts"
    by (auto simp: fresh_tasks_def Let_def)
  then show ?thesis by (simp add: on_start_def newOnlineTask_def)
qed



lemma expects_zero:
  "list_all (\<lambda>c. channel_expect c = Inr 0) cs \<Longrightarrow>
   go_each (\<lambda>c es. go_bind (channel_expect c) (\<lambda>e. Inr (es @ [e]))) cs es =
     Inr (es @ replicate (length cs) 0)"
  by (induction cs arbitrary: es) simp_all

lemma demo_new_flat:
  assumes "u \<in> set demo_uids"
  shows "(demo_new u)\<lparr>tc_cli := demo_flat\<rparr> = (demo_user u)\<lparr>tc_cli := demo_flat\<rparr>"
proof -
  obtain c where "\<lparr>tc_cli = c, preSendCount = 0, sendCount = 0, sendBytes = 0, preSendBytes = 0, preRecv = 0,
      recvCount = 0, recvBytes = 0, preRecvBytes = 0, sendSuccess = 0, sendErr = 0, sendMap = Map.empty,
      sendSuccessMap = Map.empty, tc_uid = u, tc_stopped = False\<rparr> = demo_new u"
    using demo_connect [OF assms]
    by (auto simp: connect_new_def newTestClient_def tc_connect_def elim!: go_bindE split: if_splits)
  from this [symmetric] show ?thesis by (simp add: demo_user_def)
qed

lemma demo_finished_reach:
  "test_reach demo_env demo_started demo_finished \<and>
   (\<exists>t ts. sv_tasks demo_finished = T_Online (t\<lparr>on_clients := demo_flat_users, on_finished := True\<rparr>) # ts)"
proof -
  obtain t ts where s: "sv_tasks demo_started = T_Online t # ts" and t: "on_clients t = Map.empty" "\<not> on_finished t"
    using demo_started_online by blast
  have st1: "test_step demo_env demo_started demo_online"
    unfolding demo_online_def
    by (rule test_step.batch [OF getOnlineTask_Cons [OF s] t(2)]) (unfold t(1), rule demo_online_eq)
  let ?u0 = "''m:0:usr:0000000''" and ?u1 = "''m:0:usr:0000001''"
  let ?f0 = "(demo_user ?u0)\<lparr>tc_cli := demo_flat\<rparr>"
  let ?s2 = "set_clients (demo_clients(?u0 \<mapsto> ?f0)) demo_started"
  let ?s3 = "set_clients demo_flat_users demo_started"
  have inner: "callback_step (demo_new u, st) ((demo_user u)\<lparr>tc_cli := demo_flat\<rparr>, st)" if "u \<in> set demo_uids" for u st
    using callback_step.inner [of "demo_new u" st demo_flat] by (simp add: demo_new_flat [OF that])
  have step: "test_step demo_env (set_clients cl demo_started) (set_clients (cl(u \<mapsto> k)) demo_started)"
    if "cl u = Some k0" "\<And>st. callback_step (k0, st) (k, st)" for cl u k k0
    using test_step.callback [where s = "set_clients cl demo_started" and t = "t\<lparr>on_clients := cl\<rparr>" and uid = u
        and k = k0 and k' = k and st' = "sv_stats demo_started" and E = demo_env] that
    by (simp add: set_clients_def s)
  have st2: "test_step demo_env demo_online ?s2"
    unfolding demo_online_def
    by (rule step [OF _ inner]) (simp_all add: demo_clients_def demo_uids_def)
  have "test_step demo_env ?s2 (set_clients ((demo_clients(?u0 \<mapsto> ?f0))(?u1 \<mapsto> (demo_user ?u1)\<lparr>tc_cli := demo_flat\<rparr>)) demo_started)"
    by (rule step [OF _ inner]) (simp_all add: demo_clients_def demo_uids_def)
  moreover have "(demo_clients(?u0 \<mapsto> ?f0))(?u1 \<mapsto> (demo_user ?u1)\<lparr>tc_cli := demo_flat\<rparr>) = demo_flat_users"
    by (simp add: demo_clients_def demo_flat_users_def fun_upd_twist)
  ultimately have st3: "test_step demo_env ?s2 ?s3" by simp
  have fin: "demo_finished = set_task 0 (T_Online (t\<lparr>on_clients := demo_flat_users, on_finished := True\<rparr>)) ?s3"
    by (simp add: demo_finished_def s set_task_def set_clients_def)
  have st4: "test_step demo_env ?s3 demo_finished"
    unfolding fin
    using test_step.finished [of 0 ?s3 "t\<lparr>on_clients := demo_flat_users\<rparr>" demo_env]
    by (simp add: set_clients_def s)
  have "test_reach demo_env demo_started demo_finished"
    by (rule test_reach.step [OF test_reach.step [OF test_reach.step [OF test_reach.step [OF test_reach.start st1] st2] st3] st4])
  moreover have "sv_tasks demo_finished = T_Online (t\<lparr>on_clients := demo_flat_users, on_finished := True\<rparr>) # ts"
    by (simp add: fin set_task_def set_clients_def s)
  ultimately show ?thesis by blast
qed

lemma demo_run:
  "\<exists>s1 s2 t. test_reach demo_env demo_started s1 \<and> startCount demo_uids 2 s1 = Inr s2 \<and>
     getOnlineTask s1 = Some t \<and> set demo_uids = dom (on_clients t) \<and>
     list_all (\<lambda>c. ch_Subscriber (ct_cfg c) = None) (getChannelTasks s1) \<and> s_expectRecv (sv_stats s2) = 1"
proof -
  obtain t ts where s2: "sv_tasks demo_finished = T_Online (t\<lparr>on_clients := demo_flat_users, on_finished := True\<rparr>) # ts"
    using demo_finished_reach by blast
  have ev: "case p2p_tick demo_env 2 demo_inputs demo_finished of
      Inr s1 \<Rightarrow> list_all (\<lambda>c. ch_Subscriber (ct_cfg c) = None \<and> channel_expect c = Inr 0) (getChannelTasks s1) \<and>
        map_option p2p_sendMsgCount (getP2pTask s1) = Some 1
    | _ \<Rightarrow> False" by code_simp
  then obtain s3 where p: "p2p_tick demo_env 2 demo_inputs demo_finished = Inr s3"
    by (cases "p2p_tick demo_env 2 demo_inputs demo_finished") simp_all
  have ch: "list_all (\<lambda>c. ch_Subscriber (ct_cfg c) = None) (getChannelTasks s3)"
    and zero: "list_all (\<lambda>c. channel_expect c = Inr 0) (getChannelTasks s3)"
    and one: "map_option p2p_sendMsgCount (getP2pTask s3) = Some 1"
    using ev unfolding p sum.case by (auto simp: list_all_iff)
  have "2 < length (sv_tasks demo_finished)" by code_simp
  then have st3: "test_step demo_env demo_finished s3" using p by (rule test_step.p2p_second)
  have "finite (dom demo_flat_users)" by (simp add: demo_flat_users_def)
  then have "\<exists>t3. getOnlineTask s3 = Some t3 \<and> dom (on_clients t3) = dom demo_flat_users"
    using p s2
    by (auto simp: p2p_tick_def getOnlineTask_agree set_clients_def set_task_def elim!: go_bindE split: task.splits
       dest!: p2p_willSendMsg_account)
  then obtain t3 where t3: "getOnlineTask s3 = Some t3" "dom (on_clients t3) = set demo_uids"
    by (auto simp: demo_flat_users_def demo_uids_def)
  obtain s4 where s4: "startCount demo_uids 2 s3 = Inr s4" "s_expectRecv (sv_stats s4) = 1"
    using expects_zero [OF zero, of "[]"]
    by (simp add: startCount_def t3(1) one countMsg_def sum_list_replicate)
  have "test_reach demo_env demo_started s3"
    using test_reach.step [OF conjunct1 [OF demo_finished_reach] st3] .
  with ch t3 s4 show ?thesis by blast
qed


end
