(* ===== verification/Http_Wrapper.thy ===== *)
theory Http_Wrapper
  imports Server_Tasks
begin

text \<open>
  The wrapper of the HTTP engine, \<^verbatim>\<open>pkg/wkhttp/http.go\<close>: the replies a handler can end with, the
  forwarding of a request to another server, and the pool of contexts. Headers and query parameters
  are lists of names with their values; the HTTP client that forwards is a parameter.
\<close>

section \<open>Replies\<close>

datatype 'd json_value = J_Int int | J_String string | J_Data 'd

record 'd json_reply =
  jr_code :: int
  jr_fields :: "(string \<times> 'd json_value) list"

definition http_ResponseError :: "string \<Rightarrow> 'd json_reply" where
  "http_ResponseError msg = \<lparr>jr_code = 400, jr_fields = [(''msg'', J_String msg), (''status'', J_Int 400)]\<rparr>"

definition http_ResponseOK :: "'d json_reply" where
  "http_ResponseOK = \<lparr>jr_code = 200, jr_fields = [(''status'', J_Int 200)]\<rparr>"

definition ResponseOKWithData :: "'d \<Rightarrow> 'd json_reply" where
  "ResponseOKWithData data = \<lparr>jr_code = 200, jr_fields = [(''status'', J_Int 200), (''data'', J_Data data)]\<rparr>"

definition ResponseData :: "int \<Rightarrow> 'd \<Rightarrow> 'd json_reply" where
  "ResponseData st data = \<lparr>jr_code = 200, jr_fields = [(''status'', J_Int st), (''data'', J_Data data)]\<rparr>"

definition ResponseStatus :: "int \<Rightarrow> 'd json_reply" where
  "ResponseStatus st = \<lparr>jr_code = 200, jr_fields = [(''status'', J_Int st)]\<rparr>"

text \<open>The reply of a handler, with the texts of its errors.\<close>

definition render :: "(go_error \<Rightarrow> string) \<Rightarrow> reply \<Rightarrow> 'd json_reply" where
  "render show_error r =
     (case r of ResponseOK \<Rightarrow> http_ResponseOK | ResponseError e \<Rightarrow> http_ResponseError (show_error e))"

lemma render_code: "jr_code (render show_error r) = reply_code r"
  by (cases r) (simp_all add: render_def reply_code_def http_ResponseOK_def http_ResponseError_def)

section \<open>Forwarding\<close>

type_synonym fields = "(string \<times> string list) list"

definition CopyRequestHeader :: "fields \<Rightarrow> (string \<times> string) list" where
  "CopyRequestHeader header =
     List.map_filter (\<lambda>(key, vals). case vals of [] \<Rightarrow> None | v # vs \<Rightarrow> Some (key, v)) header"

fun first_values :: "fields \<Rightarrow> (string \<times> string) list go" where
  "first_values [] = Inr []"
| "first_values ((key, vals) # q) =
     go_bind (go_index vals 0) (\<lambda>v. go_bind (first_values q) (\<lambda>r. Inr ((key, v) # r)))"

record rest_request =
  rq_Method :: string
  rq_BaseURL :: string
  rq_Headers :: "(string \<times> string) list"
  rq_Body :: bytes
  rq_QueryParams :: "(string \<times> string) list"

record http_request =
  ht_Method :: string
  ht_Header :: fields
  ht_Query :: fields
  ht_Body :: "bytes \<times> go_error option"

definition ToUpper :: "string \<Rightarrow> string" where
  "ToUpper = map (\<lambda>c. if 97 \<le> (of_char c :: nat) \<and> (of_char c :: nat) \<le> 122 then char_of (of_char c - 32 :: nat) else c)"

text \<open>What is written: a JSON reply, or the status, content type and body of the forwarded answer.\<close>

datatype 'd written = W_Json "'d json_reply" | W_Raw int string string

definition ForwardWithBody ::
    "(rest_request \<Rightarrow> go_error + int \<times> string) \<Rightarrow> (go_error \<Rightarrow> string) \<Rightarrow> string \<Rightarrow> bytes \<Rightarrow> http_request
       \<Rightarrow> 'd written go" where
  "ForwardWithBody API show_error url body r =
     go_bind (first_values (ht_Query r)) (\<lambda>queryMap.
       Inr (case API \<lparr>rq_Method = ToUpper (ht_Method r), rq_BaseURL = url, rq_Headers = CopyRequestHeader (ht_Header r),
                      rq_Body = body, rq_QueryParams = queryMap\<rparr> of
              Inl err \<Rightarrow> W_Json (http_ResponseError (show_error err))
            | Inr (st, text1) \<Rightarrow> W_Raw st ''application/json; charset=utf-8'' text1))"

text \<open>What could be read of the body is forwarded, also after an error.\<close>

definition Forward ::
    "(rest_request \<Rightarrow> go_error + int \<times> string) \<Rightarrow> (go_error \<Rightarrow> string) \<Rightarrow> string \<Rightarrow> http_request \<Rightarrow> 'd written go"
  where
  "Forward API show_error url r = ForwardWithBody API show_error url (fst (ht_Body r)) r"

lemma first_values_total:
  "list_all (\<lambda>(key, vals). vals \<noteq> []) q \<Longrightarrow> first_values q = Inr (map (\<lambda>(key, vals). (key, hd vals)) q)"
  by (induction q) (auto simp: go_index_def hd_conv_nth)

text \<open>A query parser never gives a name without a value; then forwarding does not panic.\<close>

lemma ForwardWithBody_total:
  "list_all (\<lambda>(key, vals). vals \<noteq> []) (ht_Query r) \<Longrightarrow>
   \<exists>w. ForwardWithBody API show_error url body r = Inr w"
  by (simp add: ForwardWithBody_def first_values_total)

section \<open>Middleware and contexts\<close>

datatype cors_outcome = Abort int | Continue

definition cors_headers :: "(string \<times> string) list" where
  "cors_headers =
     [(''Access-Control-Allow-Origin'', ''*''), (''Access-Control-Allow-Credentials'', ''true''),
      (''Access-Control-Allow-Headers'',
       ''Content-Type, Authorization, Content-Length, Accept-Encoding, X-CSRF-Token, token, accept, origin, Cache-Control, X-Requested-With, appid, noncestr, sign, timestamp''),
      (''Access-Control-Allow-Methods'', ''POST, OPTIONS, GET, PUT,DELETE,PATCH'')]"

definition CORSMiddleware :: "string \<Rightarrow> (string \<times> string) list \<times> cors_outcome" where
  "CORSMiddleware meth = (cors_headers, if meth = ''OPTIONS'' then Abort 204 else Continue)"

text \<open>
  \<^verbatim>\<open>LMHttpHandler\<close>: a context is taken from the pool (a new one when it gives none), set to the request,
  and put back unless the handler panics.
\<close>

definition LMHttpHandler ::
    "('g \<Rightarrow> 's \<Rightarrow> 's \<times> (go_panic + 'r)) \<Rightarrow> nat option \<Rightarrow> 'g \<Rightarrow> 'g option list \<times> 's
       \<Rightarrow> ('g option list \<times> 's) \<times> (go_panic + 'r)" where
  "LMHttpHandler handlerFunc pick c st =
     (case st of (pool, s) \<Rightarrow>
        let pool1 = (case pick of Some i \<Rightarrow> take i pool @ drop (Suc i) pool | None \<Rightarrow> pool)
        in case handlerFunc c s of
             (s1, Inl p) \<Rightarrow> ((pool1, s1), Inl p)
           | (s1, Inr r) \<Rightarrow> ((Some c # pool1, s1), Inr r))"

text \<open>The pool does not influence what a handler does.\<close>

lemma LMHttpHandler_result:
  "snd (fst (LMHttpHandler h pick c (pool, s))) = fst (h c s) \<and> snd (LMHttpHandler h pick c (pool, s)) = snd (h c s)"
  by (cases "h c s"; cases "snd (h c s)") (auto simp: LMHttpHandler_def Let_def)

end
