(* ===== verification/Http_Routes.thy ===== *)
theory Http_Routes
  imports Base_Api Http_Wrapper
begin

text \<open>
  The routes of a test machine: the engine of \<^verbatim>\<open>pkg/wkhttp/http.go\<close> around the HTTP library, the
  \<^verbatim>\<open>route\<close> functions of the two groups of handlers, and what \<^verbatim>\<open>Run\<close> and \<^verbatim>\<open>main\<close> make of them.
\<close>

section \<open>The wrapper of the engine\<close>

text \<open>
  The HTTP library is a parameter: \<open>'e\<close> is its engine and \<open>'h\<close> a handler of it. \<open>gin_Find\<close> tells the
  handlers that are registered for a method and a path, \<open>None\<close> when there are none; \<open>gin_ServeHTTP\<close>
  is what a request with them runs.
\<close>

record ('e, 'h) gin =
  gin_Default :: 'e
  gin_SetTrustedProxies :: "'e \<Rightarrow> 'e"
  gin_Handle :: "string \<Rightarrow> string \<Rightarrow> 'h list \<Rightarrow> 'e \<Rightarrow> 'e"
  gin_Group :: "string \<Rightarrow> 'h list \<Rightarrow> 'e \<Rightarrow> 'e"
  gin_Use :: "'h list \<Rightarrow> 'e \<Rightarrow> 'e"
  gin_Static :: "string \<Rightarrow> string \<Rightarrow> 'e \<Rightarrow> 'e"
  gin_pprof :: "'e \<Rightarrow> 'e"
  gin_Find :: "'e \<Rightarrow> string \<Rightarrow> string \<Rightarrow> 'h list option"
  gin_ServeHTTP :: "'e \<Rightarrow> string \<Rightarrow> string \<Rightarrow> 'h option"
  gin_Run :: "string list \<Rightarrow> 'e \<Rightarrow> go_error option"

type_synonym ('g, 's, 'r) handler = "'g \<Rightarrow> 's \<Rightarrow> 's \<times> (go_panic + 'r)"

text \<open>A handler of the library: given the pool's choice of a context, it works on the pool as well.\<close>

type_synonym ('g, 's, 'r) gin_handler =
  "nat option \<Rightarrow> 'g \<Rightarrow> 'g option list \<times> 's \<Rightarrow> ('g option list \<times> 's) \<times> (go_panic + 'r)"

definition wk_New :: "('e, 'h) gin \<Rightarrow> 'e" where
  "wk_New g = gin_SetTrustedProxies g (gin_Default g)"

definition handlersToGinHandleFuncs ::
    "('g, 's, 'r) handler list \<Rightarrow> ('g, 's, 'r) gin_handler list" where
  "handlersToGinHandleFuncs handlers = map LMHttpHandler handlers"

definition handlersToGinHandleFunc ::
    "('g, 's, 'r) handler list \<Rightarrow> ('g, 's, 'r) gin_handler list" where
  "handlersToGinHandleFunc handlers = map LMHttpHandler handlers"

definition wk_Static :: "('e, 'h) gin \<Rightarrow> string \<Rightarrow> string \<Rightarrow> 'e \<Rightarrow> 'e" where
  "wk_Static g relativePath dir l = gin_Static g relativePath dir l"

definition wk_Use :: "('e, ('g, 's, 'r) gin_handler) gin \<Rightarrow> ('g, 's, 'r) handler list \<Rightarrow> 'e \<Rightarrow> 'e" where
  "wk_Use g handlers l = gin_Use g (handlersToGinHandleFuncs handlers) l"

definition wk_POST ::
    "('e, ('g, 's, 'r) gin_handler) gin \<Rightarrow> string \<Rightarrow> ('g, 's, 'r) handler list \<Rightarrow> 'e \<Rightarrow> 'e" where
  "wk_POST g relativePath handlers l = gin_Handle g ''POST'' relativePath (handlersToGinHandleFunc handlers) l"

definition wk_GET ::
    "('e, ('g, 's, 'r) gin_handler) gin \<Rightarrow> string \<Rightarrow> ('g, 's, 'r) handler list \<Rightarrow> 'e \<Rightarrow> 'e" where
  "wk_GET g relativePath handlers l = gin_Handle g ''GET'' relativePath (handlersToGinHandleFunc handlers) l"

definition wk_DELETE ::
    "('e, ('g, 's, 'r) gin_handler) gin \<Rightarrow> string \<Rightarrow> ('g, 's, 'r) handler list \<Rightarrow> 'e \<Rightarrow> 'e" where
  "wk_DELETE g relativePath handlers l = gin_Handle g ''DELETE'' relativePath (handlersToGinHandleFunc handlers) l"

definition wk_Group ::
    "('e, ('g, 's, 'r) gin_handler) gin \<Rightarrow> string \<Rightarrow> ('g, 's, 'r) handler list \<Rightarrow> 'e \<Rightarrow> 'e" where
  "wk_Group g relativePath handlers l = gin_Group g relativePath (handlersToGinHandleFunc handlers) l"

definition wk_Run :: "('e, 'h) gin \<Rightarrow> string list \<Rightarrow> 'e \<Rightarrow> go_error option" where
  "wk_Run g ad l = gin_Run g ad l"

definition wk_ServeHTTP :: "('e, 'h) gin \<Rightarrow> 'e \<Rightarrow> string \<Rightarrow> string \<Rightarrow> 'h option" where
  "wk_ServeHTTP g l meth path = gin_ServeHTTP g l meth path"

section \<open>The routes\<close>

record ('g, 's, 'r) api_handlers =
  h_start :: "('g, 's, 'r) handler"
  h_stop :: "('g, 's, 'r) handler"
  h_report :: "('g, 's, 'r) handler"
  h_exchange :: "('g, 's, 'r) handler"
  h_health :: "('g, 's, 'r) handler"
  h_systemInfo :: "('g, 's, 'r) handler"

definition stress_route ::
    "('e, ('g, 's, 'r) gin_handler) gin \<Rightarrow> ('g, 's, 'r) api_handlers \<Rightarrow> 'e \<Rightarrow> 'e" where
  "stress_route g s r =
     wk_GET g ''/v1/stress/report'' [h_report s]
       (wk_POST g ''/v1/stress/stop'' [h_stop s] (wk_POST g ''/v1/stress/start'' [h_start s] r))"

definition base_route ::
    "('e, ('g, 's, 'r) gin_handler) gin \<Rightarrow> ('g, 's, 'r) api_handlers \<Rightarrow> 'e \<Rightarrow> 'e" where
  "base_route g b r =
     wk_GET g ''/v1/systemInfo'' [h_systemInfo b]
       (wk_GET g ''/v1/health'' [h_health b] (wk_POST g ''/v1/exchange'' [h_exchange b] r))"

definition setRoutes ::
    "('e, ('g, 's, 'r) gin_handler) gin \<Rightarrow> ('g, 's, 'r) api_handlers \<Rightarrow> 'e \<Rightarrow> 'e" where
  "setRoutes g hs r = gin_pprof g (base_route g hs (stress_route g hs r))"

text \<open>
  The handlers of the server, on what decoding the body and the environment give them. A start request
  whose draws run out is still drawing.
\<close>

record request =
  rq_cfg :: "go_error + taskCfg option"
  rq_server :: "go_error + string"
  rq_start :: start_env
  rq_stop :: stop_env
  rq_probe :: probe
  rq_now :: int

datatype answer =
    A_Reply reply
  | A_Report statsResp
  | A_Exchange string int
  | A_Health int int
  | A_System systemInfo
  | A_Pending

definition server_handlers :: "(request, server, answer) api_handlers" where
  "server_handlers =
     \<lparr>h_start = (\<lambda>q s. case api_start (rq_start q) (rq_cfg q) s of
         None \<Rightarrow> (s, Inr A_Pending) | Some (s1, r) \<Rightarrow> (s1, map_sum id A_Reply r)),
      h_stop = (\<lambda>q s. map_prod id (map_sum id A_Reply) (api_stop (rq_stop q) s)),
      h_report = (\<lambda>q s. (s, Inr (A_Report (api_report (pb_idle (rq_probe q)) (rq_now q) s)))),
      h_exchange = (\<lambda>q s. map_prod id (\<lambda>r. Inr (case r of Inl e \<Rightarrow> A_Reply e | Inr (i, st) \<Rightarrow> A_Exchange i st))
                            (api_exchange (rq_server q) s)),
      h_health = (\<lambda>q s. (s, Inr (A_Health (fst api_health) (snd api_health)))),
      h_systemInfo = (\<lambda>q s. (s, map_sum id (\<lambda>r. case r of Inl e \<Rightarrow> A_Reply e | Inr i \<Rightarrow> A_System i)
                            (api_systemInfo (rq_probe q) (rq_now q) s)))\<rparr>"

text \<open>\<^verbatim>\<open>Run\<close> returns when the engine does; \<^verbatim>\<open>main\<close> panics when that is an error.\<close>

definition server_Run ::
    "('e, ('g, 's, 'r) gin_handler) gin \<Rightarrow> ('g, 's, 'r) api_handlers \<Rightarrow> sopts \<Rightarrow> 'e \<Rightarrow> 'e \<times> go_error option" where
  "server_Run g hs so r = (let r1 = setRoutes g hs r in (r1, wk_Run g [opt_Addr so] r1))"

definition main_run ::
    "('e, ('g, 's, 'r) gin_handler) gin \<Rightarrow> ('g, 's, 'r) api_handlers
       \<Rightarrow> go_error + iface list \<Rightarrow> string \<Rightarrow> bool \<Rightarrow> string \<Rightarrow> disk \<Rightarrow> (server \<times> 'e) go" where
  "main_run g hs ifaces uuid seq serverAddr d =
     go_bind (main_server ifaces uuid seq serverAddr d) (\<lambda>s.
       case server_Run g hs (sv_opts s) (wk_New g) of
         (r, None) \<Rightarrow> Inr (s, r)
       | (r, Some err) \<Rightarrow> Inl Explicit_Panic)"

section \<open>Properties\<close>

definition route_table :: "('g, 's, 'r) api_handlers \<Rightarrow> ((string \<times> string) \<times> ('g, 's, 'r) handler) list" where
  "route_table hs =
     [((''POST'', ''/v1/stress/start''), h_start hs), ((''POST'', ''/v1/stress/stop''), h_stop hs),
      ((''GET'', ''/v1/stress/report''), h_report hs), ((''POST'', ''/v1/exchange''), h_exchange hs),
      ((''GET'', ''/v1/health''), h_health hs), ((''GET'', ''/v1/systemInfo''), h_systemInfo hs)]"


text \<open>An engine that keeps a table.\<close>

definition table_gin :: "(((string \<times> string) \<times> 'h list) list, 'h) gin" where
  "table_gin =
     \<lparr>gin_Default = [], gin_SetTrustedProxies = (\<lambda>e. e), gin_Handle = (\<lambda>m p hs e. ((m, p), hs) # e),
      gin_Group = (\<lambda>p hs e. e), gin_Use = (\<lambda>hs e. e), gin_Static = (\<lambda>p d e. e),
      gin_pprof = (\<lambda>e. ((''GET'', ''/debug/pprof/''), []) # e), gin_Find = (\<lambda>e m p. map_of e (m, p)),
      gin_ServeHTTP = (\<lambda>e m p. case map_of e (m, p) of Some [h] \<Rightarrow> Some h | _ \<Rightarrow> None),
      gin_Run = (\<lambda>ad e. None)\<rparr>"


end
