(* ===== verification/Batch_Connect.thy ===== *)
theory Batch_Connect
  imports Server_Batches
begin

text \<open>
  How \<^verbatim>\<open>onlineTask.online\<close> connects a batch: a goroutine per user, at most a hundred of them at a time,
  each of them looking at the task's flag and the user's address, connecting, and entering its client
  into the shared map. \<open>online\<close> connects one user after the other; here it is shown that every
  interleaving does what it does, for some value of the flag at each user's turn, and comes to an end.
\<close>

section \<open>The goroutines\<close>

datatype worker = W_Start | W_Dial string | W_Store testClient

type_synonym batch_state = "string list \<times> (string \<times> worker) list \<times> clients"

definition SetLimit :: nat where
  "SetLimit = 100"

inductive batch_step ::
    "env \<Rightarrow> byte \<Rightarrow> (string \<Rightarrow> handshake) \<Rightarrow> (string \<Rightarrow> string) \<Rightarrow> batch_state \<Rightarrow> batch_state \<Rightarrow> bool"
  for E ver hs ad where
  spawn: "length act < SetLimit \<Longrightarrow>
    batch_step E ver hs ad (u # todo, act, cl) (todo, act @ [(u, W_Start)], cl)"
| halted: "batch_step E ver hs ad (todo, xs @ (u, W_Start) # ys, cl) (todo, xs @ ys, cl)"
| look: "batch_step E ver hs ad (todo, xs @ (u, W_Start) # ys, cl) (todo, xs @ (u, W_Dial (ad u)) # ys, cl)"
| failed: "connect_new E ver hs a u = Inr None \<Longrightarrow>
    batch_step E ver hs ad (todo, xs @ (u, W_Dial a) # ys, cl) (todo, xs @ ys, cl)"
| connected: "connect_new E ver hs a u = Inr (Some t) \<Longrightarrow>
    batch_step E ver hs ad (todo, xs @ (u, W_Dial a) # ys, cl) (todo, xs @ (u, W_Store t) # ys, cl)"
| store: "batch_step E ver hs ad (todo, xs @ (u, W_Store t) # ys, cl) (todo, xs @ ys, cl(u \<mapsto> t))"

section \<open>They come to an end\<close>

fun worker_weight :: "worker \<Rightarrow> nat" where
  "worker_weight W_Start = 3"
| "worker_weight (W_Dial a) = 2"
| "worker_weight (W_Store t) = 1"

fun batch_weight :: "batch_state \<Rightarrow> nat" where
  "batch_weight (todo, act, cl) = 4 * length todo + sum_list (map (worker_weight \<circ> snd) act)"

lemma batch_step_weight: "batch_step E ver hs ad s s' \<Longrightarrow> batch_weight s' < batch_weight s"
  by (induction rule: batch_step.induct) simp_all

lemma batch_run_weight: "(batch_step E ver hs ad ^^ n) s s' \<Longrightarrow> n + batch_weight s' \<le> batch_weight s"
proof (induction n arbitrary: s')
  case (Suc n)
  then obtain s1 where "(batch_step E ver hs ad ^^ n) s s1" and "batch_step E ver hs ad s1 s'" by auto
  with Suc.IH [of s1] batch_step_weight [of E ver hs ad s1 s'] show ?case by simp
qed simp

text \<open>Only a panic of a connection attempt can keep a batch from going on.\<close>

lemma batch_progress:
  "todo = [] \<and> act = [] \<or> (\<exists>s'. batch_step E ver hs ad (todo, act, cl) s') \<or>
   (\<exists>u a p. (u, W_Dial a) \<in> set act \<and> connect_new E ver hs a u = Inl p)"
proof (cases act)
  case Nil
  show ?thesis
  proof (cases todo)
    case (Cons u us)
    have "batch_step E ver hs ad (u # us, [], cl) (us, [] @ [(u, W_Start)], cl)"
      by (rule batch_step.spawn) (simp add: SetLimit_def)
    with Nil Cons show ?thesis by auto
  qed (use Nil in simp)
next
  case (Cons x ys)
  obtain u w where x: "x = (u, w)" by (cases x)
  show ?thesis
  proof (cases w)
    case W_Start
    then show ?thesis using batch_step.halted [of E ver hs ad todo "[]" u ys cl] Cons x by auto
  next
    case (W_Dial a)
    note dial = W_Dial
    show ?thesis
    proof (cases "connect_new E ver hs a u")
      case (Inr r)
      then show ?thesis
        using batch_step.failed [of E ver hs a u ad todo "[]" ys cl]
          batch_step.connected [of E ver hs a u _ ad todo "[]" ys cl] Cons x dial
        by (cases r) auto
    next
      case (Inl p)
      then have "(u, W_Dial a) \<in> set act \<and> connect_new E ver hs a u = Inl p" using Cons x dial by simp
      then show ?thesis by blast
    qed
  next
    case (W_Store t)
    then show ?thesis using batch_step.store [of E ver hs ad todo "[]" u t ys cl] Cons x by auto
  qed
qed

section \<open>They do what one user after the other does\<close>

text \<open>The clients after connecting the users of a set, in any order.\<close>

definition connected_clients ::
    "env \<Rightarrow> byte \<Rightarrow> (string \<Rightarrow> handshake) \<Rightarrow> (string \<Rightarrow> string) \<Rightarrow> string set \<Rightarrow> clients \<Rightarrow> clients" where
  "connected_clients E ver hs ad us cl =
     (\<lambda>u. if u \<in> us then (case connect_new E ver hs (ad u) u of Inr (Some t) \<Rightarrow> Some t | _ \<Rightarrow> cl u) else cl u)"

lemma connect_all_set:
  "\<forall>u \<in> set us. \<exists>r. connect_new E ver hs (ad u) u = Inr r \<Longrightarrow>
   connect_all E ver hs ad us cl = Inr (connected_clients E ver hs ad (set us) cl)"
proof (induction us arbitrary: cl)
  case (Cons u us)
  then obtain r where r: "connect_new E ver hs (ad u) u = Inr r" by auto
  let ?cl = "case r of None \<Rightarrow> cl | Some t \<Rightarrow> cl(u \<mapsto> t)"
  have "connected_clients E ver hs ad (set us) ?cl = connected_clients E ver hs ad (set (u # us)) cl"
    by (rule ext) (use r in \<open>auto simp: connected_clients_def split: option.splits sum.splits\<close>)
  moreover have "connect_all E ver hs ad us ?cl = Inr (connected_clients E ver hs ad (set us) ?cl)"
    by (rule Cons.IH) (use Cons.prems in simp)
  ultimately show ?case by (simp add: r)
qed (simp add: connected_clients_def)

text \<open>
  The users of a batch are still to come, at work or done; \<open>us\<close> are those done whose goroutine found
  the task running.
\<close>

definition worker_ok ::
    "env \<Rightarrow> byte \<Rightarrow> (string \<Rightarrow> handshake) \<Rightarrow> (string \<Rightarrow> string) \<Rightarrow> string \<times> worker \<Rightarrow> bool" where
  "worker_ok E ver hs ad uw = (case uw of
     (u, W_Start) \<Rightarrow> True
   | (u, W_Dial a) \<Rightarrow> a = ad u
   | (u, W_Store t) \<Rightarrow> connect_new E ver hs (ad u) u = Inr (Some t))"

definition batch_inv ::
    "env \<Rightarrow> byte \<Rightarrow> (string \<Rightarrow> handshake) \<Rightarrow> (string \<Rightarrow> string) \<Rightarrow> string list \<Rightarrow> clients \<Rightarrow> batch_state \<Rightarrow> bool" where
  "batch_inv E ver hs ad uids cl s = (case s of (todo, act, cl') \<Rightarrow>
     length act \<le> SetLimit \<and> list_all (worker_ok E ver hs ad) act \<and> distinct (todo @ map fst act) \<and>
     (\<exists>us. set todo \<union> fst ` set act \<union> us \<subseteq> set uids \<and> us \<inter> (set todo \<union> fst ` set act) = {} \<and>
        (\<forall>u \<in> us. \<exists>r. connect_new E ver hs (ad u) u = Inr r) \<and> cl' = connected_clients E ver hs ad us cl))"

lemma connected_insert:
  assumes "connect_new E ver hs (ad u) u = Inr r" and "u \<notin> us"
  shows "connected_clients E ver hs ad (insert u us) cl =
    (case r of None \<Rightarrow> connected_clients E ver hs ad us cl | Some t \<Rightarrow> (connected_clients E ver hs ad us cl)(u \<mapsto> t))"
  by (rule ext) (use assms in \<open>auto simp: connected_clients_def split: option.splits\<close>)

lemma batch_step_inv:
  assumes "batch_step E ver hs ad s s'" and "batch_inv E ver hs ad uids cl s"
  shows "batch_inv E ver hs ad uids cl s'"
  using assms
proof cases
  case (failed a u todo xs ys cl')
  from assms(2) obtain us where us: "set todo \<union> fst ` set (xs @ (u, W_Dial a) # ys) \<union> us \<subseteq> set uids"
    "us \<inter> (set todo \<union> fst ` set (xs @ (u, W_Dial a) # ys)) = {}" "\<forall>u \<in> us. \<exists>r. connect_new E ver hs (ad u) u = Inr r"
    "cl' = connected_clients E ver hs ad us cl" and a: "a = ad u"
    by (auto simp: batch_inv_def failed(1) worker_ok_def)
  have "cl' = connected_clients E ver hs ad (insert u us) cl"
    using connected_insert [of E ver hs ad u None us cl] failed(3) a us(2,4) by auto
  then show ?thesis
    using assms(2) us failed(3) a unfolding failed(1,2) batch_inv_def prod.case
    by (intro conjI exI [of _ "insert u us"]) auto
next
  case (store todo xs u t ys cl')
  from assms(2) obtain us where us: "set todo \<union> fst ` set (xs @ (u, W_Store t) # ys) \<union> us \<subseteq> set uids"
    "us \<inter> (set todo \<union> fst ` set (xs @ (u, W_Store t) # ys)) = {}" "\<forall>u \<in> us. \<exists>r. connect_new E ver hs (ad u) u = Inr r"
    "cl' = connected_clients E ver hs ad us cl" and t: "connect_new E ver hs (ad u) u = Inr (Some t)"
    by (auto simp: batch_inv_def store(1) worker_ok_def)
  have "cl'(u \<mapsto> t) = connected_clients E ver hs ad (insert u us) cl"
    using connected_insert [of E ver hs ad u "Some t" us cl] t us(2,4) by auto
  then show ?thesis
    using assms(2) us t unfolding store(1,2) batch_inv_def prod.case
    by (intro conjI exI [of _ "insert u us"]) auto
next
  case (spawn act u todo cl')
  then show ?thesis using assms(2) by (auto simp: batch_inv_def worker_ok_def)
next
  case (halted todo xs u ys cl')
  then show ?thesis using assms(2) by (auto simp: batch_inv_def)
next
  case (look todo xs u ys cl')
  then show ?thesis using assms(2) by (auto simp: batch_inv_def worker_ok_def)
next
  case (connected a u t todo xs ys cl')
  then show ?thesis using assms(2) by (auto simp: batch_inv_def worker_ok_def)
qed

lemma batch_run_inv:
  "(batch_step E ver hs ad ^^ n) s s' \<Longrightarrow> batch_inv E ver hs ad uids cl s \<Longrightarrow> batch_inv E ver hs ad uids cl s'"
  by (induction n arbitrary: s') (auto intro: batch_step_inv)

section \<open>Properties\<close>

text \<open>
  C17. A batch of different users, connected by goroutines in any interleaving: it takes at most four
  steps per user, never more than a hundred goroutines are at work, and it goes on until all are done
  unless connecting a user panics. When all are done, the clients are those that connecting the users
  one after the other gives, for some value of the task's flag at the turn of each user.
\<close>

theorem batch_any_order:
  assumes "distinct uids" and "route uids = Inr m"
    and "(batch_step E ver hs (lookup_addr m) ^^ n) (uids, [], cl) (todo, act, cl')"
  shows "n \<le> 4 * length uids \<and> length act \<le> 100 \<and>
    (todo = [] \<and> act = [] \<or> (\<exists>s'. batch_step E ver hs (lookup_addr m) (todo, act, cl') s') \<or>
       (\<exists>u a p. (u, W_Dial a) \<in> set act \<and> connect_new E ver hs a u = Inl p)) \<and>
    (todo = [] \<and> act = [] \<longrightarrow> (\<exists>running. online E ver hs running route uids cl = Inr cl'))"
proof -
  let ?ad = "lookup_addr m"
  have "batch_inv E ver hs ?ad uids cl (uids, [], cl)"
    unfolding batch_inv_def prod.case
    by (intro conjI exI [of _ "{}"]) (simp_all add: assms(1) connected_clients_def)
  from batch_run_inv [OF assms(3) this] obtain us where len: "length act \<le> SetLimit"
    and us: "us \<subseteq> set uids" "\<forall>u \<in> us. \<exists>r. connect_new E ver hs (?ad u) u = Inr r"
      "cl' = connected_clients E ver hs ?ad us cl"
    by (auto simp: batch_inv_def)
  let ?run = "\<lambda>u. u \<in> us"
  have "set (filter ?run uids) = us" using us(1) by auto
  with us(2,3) connect_all_set [of "filter ?run uids" E ver hs ?ad cl]
  have "online E ver hs ?run route uids cl = Inr cl'" by (simp add: online_def assms(2))
  then show ?thesis
    using batch_run_weight [OF assms(3)] len batch_progress [of todo act E ver hs ?ad cl']
    by (auto simp: SetLimit_def)
qed

theorem batch_any_order_witness:
  "\<exists>running. online demo_env 4 (\<lambda>_. demo_handshake\<lparr>hs_dial := \<lambda>_ _. Inl Err_EOF\<rparr>) running
     (\<lambda>_. Inr Map.empty) [''a'', ''b''] Map.empty = Inr Map.empty"
proof -
  let ?h = "\<lambda>_. demo_handshake\<lparr>hs_dial := \<lambda>_ _. Inl Err_EOF\<rparr>"
  let ?S = "batch_step demo_env 4 ?h (lookup_addr Map.empty)"
  have s1: "?S ([''a'', ''b''], [], Map.empty) ([''b''], [] @ [(''a'', W_Start)], Map.empty)"
    by (rule batch_step.spawn) (simp add: SetLimit_def)
  have s2: "?S ([''b''], [] @ [(''a'', W_Start)], Map.empty) ([], ([] @ [(''a'', W_Start)]) @ [(''b'', W_Start)], Map.empty)"
    by (rule batch_step.spawn) (simp add: SetLimit_def)
  have s3: "?S ([], ([] @ [(''a'', W_Start)]) @ [(''b'', W_Start)], Map.empty)
      ([], [] @ (''a'', W_Start) # [(''b'', W_Dial [])], Map.empty)"
    using batch_step.look [of demo_env 4 ?h "lookup_addr Map.empty" "[]" "[(''a'', W_Start)]" "''b''" "[]" Map.empty]
    by (simp add: lookup_addr_def)
  have s4: "?S ([], [] @ (''a'', W_Start) # [(''b'', W_Dial [])], Map.empty) ([], [] @ [(''b'', W_Dial [])], Map.empty)"
    by (rule batch_step.halted)
  have s5: "?S ([], [] @ [(''b'', W_Dial [])], Map.empty) ([], [] @ [], Map.empty)"
  proof (rule batch_step.failed)
    have "case connect_new demo_env 4 ?h [] ''b'' of Inr None \<Rightarrow> True | _ \<Rightarrow> False" by code_simp
    then show "connect_new demo_env 4 ?h [] ''b'' = Inr None"
      by (simp split: sum.splits option.splits)
  qed
  have "(?S ^^ Suc (Suc (Suc (Suc (Suc 0))))) ([''a'', ''b''], [], Map.empty) ([], [] @ [], Map.empty)"
    by (rule relpowp_Suc_I, rule relpowp_Suc_I, rule relpowp_Suc_I, rule relpowp_Suc_I, rule relpowp_Suc_I,
        rule relpowp_0_I, rule s1, rule s2, rule s3, rule s4, rule s5)
  from batch_any_order [of "[''a'', ''b'']" "\<lambda>_. Inr Map.empty", OF _ refl this] show ?thesis by simp
qed

end
