(* ===== verification/Spec2Isabelle.thy ===== *)
theory Spec2Isabelle
  imports Client_Phases End_To_End Flusher_Wakeup Timer_Pool Test_Accounts Http_Routes Batch_Connect
begin

text \<open>
  StressTester, a load generator for the WuKongIM message server, written in Go. A test machine runs an
  HTTP server (\<^verbatim>\<open>server/\<close>). A controller gives it the address of the server under test
  (\<^verbatim>\<open>/v1/exchange\<close>) and starts and stops tests (\<^verbatim>\<open>/v1/stress/start\<close>, \<^verbatim>\<open>stop\<close>, \<^verbatim>\<open>report\<close>). A test brings a
  number of users online, each with a client of its own (\<^verbatim>\<open>pkg/client/\<close>) that keeps a connection in the
  binary protocol of WuKongIM; it creates channels, sends messages through them and between pairs of
  users, and counts and times what comes back.

  How the parts interact. The start handler fills in the configuration and makes a list of tasks: the
  online task owns the map from users to test clients; channel tasks and the private-chat task look
  clients up in it and send through them; the statistics task sums up the counters of the clients. A
  test client wraps a client and gives it two callbacks. The client's read loop cuts the byte stream
  into packets, answers them and calls back; senders append packets to a buffer that a flusher writes
  out; a timer sends pings and gives the connection up when pongs stay away.

  \<^bold>\<open>Theories and code\<close>
    \<^item> \<open>Prelude\<close>: panics and results of Go functions (\<open>'a go\<close> is \<open>Inl panic\<close> or \<open>Inr result\<close>), the errors of
      the program, loops that a panic ends, integer division, wrap-around, decimal formatting, slices
      with a capacity. \<open>Go_Strings\<close>: the functions of \<^verbatim>\<open>strings\<close>, \<^verbatim>\<open>strconv\<close> and \<^verbatim>\<open>base64\<close> that are used.
      \<open>Wk_Uuid\<close>: \<^verbatim>\<open>pkg/wkutil/uuid.go\<close>. \<open>Go_Float\<close>: \<^verbatim>\<open>float64\<close> rounding and square root on exact integers.
    \<^item> \<open>Client_Config\<close>: \<^verbatim>\<open>pkg/client/options.go\<close>, \<^verbatim>\<open>const.go\<close>. \<open>Framing\<close>: \<^verbatim>\<open>common.go\<close> and the buffer handling
      of \<^verbatim>\<open>readLoop\<close>. \<open>Lim_Buffer\<close>: \<^verbatim>\<open>buffer.go\<close> (\<open>limWriter\<close>, \<open>timeoutWriter\<close>, \<open>limReader\<close>) over scripted
      connections. \<open>Timer_Pool\<close>: \<^verbatim>\<open>timer.go\<close>.
    \<^item> \<open>Client\<close>: \<^verbatim>\<open>client.go\<close>, the record \<open>client\<close> for the struct and a function per method, each with all
      its early returns. \<open>Client_Lifecycle\<close>: their interleaving as a step relation. \<open>Client_Phases\<close>: the
      abstract machine of phases that every interleaving follows. \<open>Client_Behaviour\<close>: what the operations
      do together. \<open>End_To_End\<close>: from \<^verbatim>\<open>SendMessage\<close> on one side to the packet handler on the other.
      \<open>Flusher_Wakeup\<close>: senders, the token channel and the flusher. \<open>Client_Demo\<close>: a concrete instance of
      the parameters, for examples.
    \<^item> \<open>Server_Options\<close>: \<^verbatim>\<open>server/options.go\<close>, \<^verbatim>\<open>pkg/wkutil/ip.go\<close>; the data directory is a map from names
      to contents. \<open>Test_Client\<close>: \<^verbatim>\<open>server/client.go\<close>, \<^verbatim>\<open>stats.go\<close> and the sums of \<^verbatim>\<open>task_stats.go\<close>.
      \<open>Server_Batches\<close>: identifiers, configuration, batches, subscribers, bringing users online
      (\<^verbatim>\<open>server.go\<close>, \<^verbatim>\<open>api_stress.go\<close>, \<^verbatim>\<open>task_online.go\<close>, \<^verbatim>\<open>task_channel.go\<close>). \<open>Batch_Connect\<close>: the
      goroutines that connect a batch of users.
    \<^item> \<open>P2p_Pairs\<close>: the users and pairs of \<^verbatim>\<open>task_p2p.go\<close>. \<open>Task_Sending\<close>: creating channels and sending
      (\<^verbatim>\<open>task_channel.go\<close>, \<^verbatim>\<open>task_p2p.go\<close>) and the random choices of \<^verbatim>\<open>task_online.go\<close>. \<open>Im_Api\<close>:
      \<^verbatim>\<open>wukongim_api.go\<close>.
    \<^item> \<open>Server_Tasks\<close>: the tasks and the server with its start and stop handlers (\<^verbatim>\<open>task.go\<close>, \<^verbatim>\<open>server.go\<close>,
      \<^verbatim>\<open>api_stress.go\<close>). \<open>Server_Lifecycle\<close>: their step relation and invariants. \<open>Base_Api\<close>: the other
      handlers (\<^verbatim>\<open>api_base.go\<close>, the report), the round of the statistics task, and \<^verbatim>\<open>main.go\<close>.
    \<^item> \<open>Task_Loops\<close>: the loops of the tasks and of a test client (\<^verbatim>\<open>sendLoop\<close>, \<^verbatim>\<open>loop\<close>,
      \<^verbatim>\<open>waitOnlineFinished\<close>, \<^verbatim>\<open>cleanLoop\<close>). \<open>Test_Accounts\<close>: a whole test, from the start to a round of the
      statistics.
    \<^item> \<open>Http_Wrapper\<close>: the contexts of \<^verbatim>\<open>pkg/wkhttp/http.go\<close>. \<open>Http_Routes\<close>: its engine, the routes of
      \<^verbatim>\<open>api_stress.go\<close> and \<^verbatim>\<open>api_base.go\<close>, \<^verbatim>\<open>server.Run\<close> and \<^verbatim>\<open>main\<close>.

  \<^bold>\<open>Interfaces\<close>
    \<^item> The writers that \<open>limWriter\<close> sits on, the readers that \<open>limReader\<close> sits on and the contract of a task
      are locales, interpreted on the connection, on \<open>timeoutWriter\<close>, and on the four kinds of task. What
      a second of sending may change is a locale over the account of one attempt (\<open>attempt_cost\<close>, and
      \<open>channel_cost\<close> that extends it), interpreted on the private chats and, with two accounts, on the
      channel tasks.
    \<^item> Code of other packages is a parameter: the protocol package and the cryptographic functions are
      the record \<open>env\<close>, the network and the JSON functions \<open>api_lib\<close>, the HTTP engine \<open>gin\<close>; nothing is assumed of them
      except where a theorem says so.
    \<^item> What the scheduler, the clock, the random numbers and the operating system decide is an argument of
      the definitions or a choice of the step relation: iteration orders of maps, draws, times, the
      flags of a task when a loop looks at them, the contents of connections.

  \<^bold>\<open>What the lemmas show\<close>
    \<^item> Bytes: whatever the cut of the stream, exactly the packets sent arrive at the handlers, in order;
      the copying and the in-place splitter agree; lengths are read back and bounded. Messages sent
      and flushed without error are decoded on the other side, in order, with their contents.
    \<^item> The buffered writer implements a byte stream with a bounded buffer; failures are sticky; what is
      collected during a reconnect is delivered once; \<open>ReadString\<close> returns within the reads the
      connection can answer.
    \<^item> The client's invariant in all reachable states, freedom from panics, finality of a close, the ping
      watchdog, the matching of pongs, acknowledgement, the key of a session, no lost wake-up; and that
      its interleaved operations follow a machine of five phases.
    \<^item> The machine: interleaved connecting of a batch implements the sequential one; stable identity, test numbers without gaps, distinct identifiers, batches, pairs,
      subscribers, rates, the counters of tasks and clients, and that what the report expects to be
      received is backed by what was sent.
    \<^item> The server: starting is all or nothing, stopping closes every channel once, the list of tasks fits
      the configuration in every reachable state, ticks after a stop do nothing, each route runs its
      handler, and what two requests that overlap can do.
    \<^item> Where the code does something it does not mean to, the theorem states what it does: bytes lost on
      a reconnect, pongs of an old connection, batches that reach behind the users, receipts that come
      too early, overlapping start and stop requests.

  \<^bold>\<open>Bounds and fuel\<close>
    \<^item> \<open>decodeLength\<close> works on 32-bit words; that its accumulator never wraps is proved. The next test
      number and the argument of the quadratic equation wrap at 64 bits. Sequence numbers and the
      client's own counters are 64-bit words; the counters and times of the statistics are unbounded
      integers, as are lengths of slices.
    \<^item> \<open>minUsersForPairs\<close> computes with exact rounding to 53 bits; values are multiples of \<open>2 ^ -52\<close>, which
      loses nothing since all of them are at least one or halves of integers; the result is proved to
      be right below \<open>2 ^ 50\<close> pairs.
    \<^item> \<open>lr_ReadString\<close> has fuel, and more than the length of the connection's script is proved to be
      enough. The random choice of pairs consumes a list of draws, and \<open>None\<close> says that the list was
      too short; which lists are long enough is proved exactly. Random numbers below \<open>n\<close> are given as
      arbitrary numbers, taken modulo \<open>n\<close>. All other loops are structural.

  \<^bold>\<open>Limits of the model\<close>
    \<^item> Every operation of the client is one step, as it holds the client's lock. \<^verbatim>\<open>SendMessage\<close> does not take
      it around the whole of its work and is one step all the same; \<open>Flusher_Wakeup\<close> looks at the
      interleaving of its parts. A handler of the server is one step; \<open>start_check\<close>, \<open>start_launch\<close> and
      \<open>stop_launch\<close> are its parts for requests that overlap. Starting a task and adding it to the list
      are one step.
    \<^item> A batch of users is connected one user after the other; that up to a hundred goroutines at a time,
      in any interleaving, do the same is proved in \<open>Batch_Connect\<close>. The
      memory that two slices share is modelled where the program depends on it, in the batches; the
      array of the users, which the private chats may extend within its spare capacity, is not shared
      with them in the model.
    \<^item> Strings are lists of bytes; white space and lower case are those of ASCII. Deadlines of reads and
      writes, and how long anything takes, have no counterpart.

  \<^bold>\<open>Not modelled\<close>
    \<^item> Logging and printing are left out, as are the setters and getters of single fields that only pass
      a value on (\<^verbatim>\<open>SetOnRecv\<close>, \<^verbatim>\<open>SetOnSendack\<close>, \<^verbatim>\<open>LastSendMsgTime\<close>, \<^verbatim>\<open>Username\<close>): callbacks are parameters.
    \<^item> The percentages of \<^verbatim>\<open>systemInfo\<close> are opaque values with a given description; the JSON text of
      replies is not written out.
\<close>

end
